theory Spec2Isabelle
  imports Main
begin

section \<open>Strings\<close>

text \<open>
  Python strings are modelled as HOL strings: a \<^typ>\<open>char\<close> stands for the code point of
  the same number, so the model covers command lines whose code points are below 256
  (ASCII and Latin-1). The characters that cannot be written inside a HOL string literal
  are named here.
\<close>

definition dquote :: char where "dquote = CHR 0x22"
definition squote :: char where "squote = CHR 0x27"
definition backslash :: char where "backslash = CHR 0x5C"
definition newline :: char where "newline = CHR 0x0A"

text \<open>\<^verbatim>\<open>s.startswith(p)\<close>\<close>

fun startswith :: "string \<Rightarrow> string \<Rightarrow> bool" where
  "startswith s [] = True"
| "startswith [] (p # ps) = False"
| "startswith (c # cs) (p # ps) = (c = p \<and> startswith cs ps)"

text \<open>\<^verbatim>\<open>sep.join(xs)\<close>\<close>

fun join :: "string \<Rightarrow> string list \<Rightarrow> string" where
  "join sep [] = []"
| "join sep [x] = x"
| "join sep (x # y # ys) = x @ sep @ join sep (y # ys)"

text \<open>\<^verbatim>\<open>s.split(sep)\<close> for a separator of one character: the pieces between the
  separators, empty pieces included.\<close>

fun split_on :: "char \<Rightarrow> string \<Rightarrow> string \<Rightarrow> string list" where
  "split_on sep cur [] = [cur]"
| "split_on sep cur (c # cs) =
     (if c = sep then cur # split_on sep [] cs else split_on sep (cur @ [c]) cs)"

text \<open>\<^verbatim>\<open>sub in s\<close>: the string \<open>sub\<close> occurs in \<open>s\<close>.\<close>

fun contains :: "string \<Rightarrow> string \<Rightarrow> bool" where
  "contains [] sub = (sub = [])"
| "contains (c # cs) sub = (startswith (c # cs) sub \<or> contains cs sub)"

section \<open>The tokenizer: \<^verbatim>\<open>shlex.shlex(command, posix=True, punctuation_chars=True)\<close>\<close>

text \<open>
  The lexer of the Python standard library, with the attributes its constructor sets for
  \<^verbatim>\<open>posix=True\<close> and \<^verbatim>\<open>punctuation_chars=True\<close>; \<^verbatim>\<open>whitespace_split\<close> is
  \<^verbatim>\<open>False\<close>.
\<close>

definition whitespace :: string where
  "whitespace = [CHR '' '', CHR 0x09, CHR 0x0D, CHR 0x0A]"

definition commenters :: string where
  "commenters = ''#''"

definition escape :: string where
  "escape = [backslash]"

definition quotes :: string where
  "quotes = [squote, dquote]"

definition escapedquotes :: string where
  "escapedquotes = [dquote]"

definition punctuation_chars :: string where
  "punctuation_chars = ''();<>|&''"

text \<open>The Latin-1 letters that posix mode adds to the word characters: the small letters
  (code points 223 to 246 and 248 to 255), then the capital letters (192 to 214 and 216 to
  222).\<close>

definition latin1_wordchars :: string where
  "latin1_wordchars =
     [CHR 0xDF, CHR 0xE0, CHR 0xE1, CHR 0xE2, CHR 0xE3, CHR 0xE4, CHR 0xE5, CHR 0xE6,
      CHR 0xE7, CHR 0xE8, CHR 0xE9, CHR 0xEA, CHR 0xEB, CHR 0xEC, CHR 0xED, CHR 0xEE,
      CHR 0xEF, CHR 0xF0, CHR 0xF1, CHR 0xF2, CHR 0xF3, CHR 0xF4, CHR 0xF5, CHR 0xF6,
      CHR 0xF8, CHR 0xF9, CHR 0xFA, CHR 0xFB, CHR 0xFC, CHR 0xFD, CHR 0xFE, CHR 0xFF,
      CHR 0xC0, CHR 0xC1, CHR 0xC2, CHR 0xC3, CHR 0xC4, CHR 0xC5, CHR 0xC6, CHR 0xC7,
      CHR 0xC8, CHR 0xC9, CHR 0xCA, CHR 0xCB, CHR 0xCC, CHR 0xCD, CHR 0xCE, CHR 0xCF,
      CHR 0xD0, CHR 0xD1, CHR 0xD2, CHR 0xD3, CHR 0xD4, CHR 0xD5, CHR 0xD6, CHR 0xD8,
      CHR 0xD9, CHR 0xDA, CHR 0xDB, CHR 0xDC, CHR 0xDD, CHR 0xDE]"

definition wordchars :: string where
  "wordchars =
     ''abcdfeghijklmnopqrstuvwxyzABCDEFGHIJKLMNOPQRSTUVWXYZ0123456789_''
       @ latin1_wordchars @ ''~-./*?=''"

datatype lex_error = No_closing_quotation | No_escaped_character

text \<open>The lexer's \<^verbatim>\<open>state\<close>: \<^verbatim>\<open>' '\<close>, \<^verbatim>\<open>'a'\<close>, \<^verbatim>\<open>'c'\<close>, a quote character, or
  the escape character. The state \<^verbatim>\<open>None\<close> (end of file) is the empty input.\<close>

datatype lex_state = Whitespace | Word | Punct | Quote char | Escape

text \<open>\<^verbatim>\<open>instream.readline()\<close>: the rest of the input after the next newline.\<close>

fun skip_line :: "string \<Rightarrow> string" where
  "skip_line [] = []"
| "skip_line (c # cs) = (if c = newline then cs else skip_line cs)"

text \<open>The end of \<^verbatim>\<open>read_token\<close>: an empty token that was not quoted is \<^verbatim>\<open>None\<close>.\<close>

definition emit :: "bool \<Rightarrow> string \<Rightarrow> string option" where
  "emit quoted tok = (if \<not> quoted \<and> tok = [] then None else Some tok)"

lemma length_skip_line: "length (skip_line cs) \<le> length cs"
  by (induction cs) auto

text \<open>
  \<^verbatim>\<open>read_token\<close>, one loop iteration per character. The arguments are the state, the
  \<^verbatim>\<open>escapedstate\<close>, \<^verbatim>\<open>quoted\<close>, the token read so far and the remaining input; the
  result is the token (or \<^verbatim>\<open>None\<close>) with the input left, or the \<^verbatim>\<open>ValueError\<close>.
  A character that the source pushes back is left on the input.
\<close>

function read_token ::
  "lex_state \<Rightarrow> lex_state \<Rightarrow> bool \<Rightarrow> string \<Rightarrow> string \<Rightarrow> lex_error + (string option \<times> string)"
where
  "read_token Whitespace esc quoted tok [] = Inr (emit quoted tok, [])"
| "read_token Whitespace esc quoted tok (c # cs) =
     (if c \<in> set whitespace then
        (if tok \<noteq> [] \<or> quoted then Inr (emit quoted tok, cs)
         else read_token Whitespace esc quoted tok cs)
      else if c \<in> set commenters then read_token Whitespace esc quoted tok (skip_line cs)
      else if c \<in> set escape then read_token Escape Word quoted tok cs
      else if c \<in> set wordchars then read_token Word esc quoted [c] cs
      else if c \<in> set punctuation_chars then read_token Punct esc quoted [c] cs
      else if c \<in> set quotes then read_token (Quote c) esc quoted tok cs
      else Inr (emit quoted [c], cs))"
| "read_token (Quote q) esc quoted tok [] = Inl No_closing_quotation"
| "read_token (Quote q) esc quoted tok (c # cs) =
     (if c = q then read_token Word esc True tok cs
      else if c \<in> set escape \<and> q \<in> set escapedquotes then
        read_token Escape (Quote q) True tok cs
      else read_token (Quote q) esc True (tok @ [c]) cs)"
| "read_token Escape esc quoted tok [] = Inl No_escaped_character"
| "read_token Escape esc quoted tok (c # cs) =
     read_token esc esc quoted
       ((case esc of
           Quote q \<Rightarrow> if c \<noteq> backslash \<and> c \<noteq> q then tok @ [backslash] else tok
         | _ \<Rightarrow> tok) @ [c]) cs"
| "read_token Word esc quoted tok [] = Inr (emit quoted tok, [])"
| "read_token Word esc quoted tok (c # cs) =
     (if c \<in> set whitespace then
        (if tok \<noteq> [] \<or> quoted then Inr (emit quoted tok, cs)
         else read_token Whitespace esc quoted tok cs)
      else if c \<in> set commenters then
        (if tok \<noteq> [] \<or> quoted then Inr (emit quoted tok, skip_line cs)
         else read_token Whitespace esc quoted tok (skip_line cs))
      else if c \<in> set quotes then read_token (Quote c) esc quoted tok cs
      else if c \<in> set escape then read_token Escape Word quoted tok cs
      else if c \<in> set wordchars then read_token Word esc quoted (tok @ [c]) cs
      else
        (if tok \<noteq> [] \<or> quoted then Inr (emit quoted tok, c # cs)
         else read_token Whitespace esc quoted tok (c # cs)))"
| "read_token Punct esc quoted tok [] = Inr (emit quoted tok, [])"
| "read_token Punct esc quoted tok (c # cs) =
     (if c \<in> set whitespace then
        (if tok \<noteq> [] \<or> quoted then Inr (emit quoted tok, cs)
         else read_token Whitespace esc quoted tok cs)
      else if c \<in> set commenters then
        (if tok \<noteq> [] \<or> quoted then Inr (emit quoted tok, skip_line cs)
         else read_token Whitespace esc quoted tok (skip_line cs))
      else if c \<in> set punctuation_chars then read_token Punct esc quoted (tok @ [c]) cs
      else Inr (emit quoted tok, c # cs))"
  by pat_completeness auto
termination
  by (relation "measures [\<lambda>(st, esc, quoted, tok, cs). length cs,
                          \<lambda>(st, esc, quoted, tok, cs). if st = Whitespace then 0 else 1]")
     (auto simp: length_skip_line le_imp_less_Suc)

lemma read_token_rest:
  "read_token st esc quoted tok cs = Inr (r, rest) \<Longrightarrow> length rest \<le> length cs"
proof (induction st esc quoted tok cs rule: read_token.induct)
  case (2 esc quoted tok c cs)
  then show ?case
    using length_skip_line [of cs] by (auto split: if_splits)
next
  case (8 esc quoted tok c cs)
  then show ?case
    using length_skip_line [of cs] by (auto split: if_splits)
next
  case (10 esc quoted tok c cs)
  then show ?case
    using length_skip_line [of cs] by (auto split: if_splits)
qed (auto split: if_splits)

lemma read_token_progress:
  "read_token Whitespace esc quoted tok (c # cs) = Inr (r, rest) \<Longrightarrow> length rest \<le> length cs"
  by (auto split: if_splits dest!: read_token_rest
        intro: order_trans [OF _ length_skip_line])

text \<open>
  Iterating the lexer (\<^verbatim>\<open>list(lexer)\<close>): tokens are read until \<^verbatim>\<open>read_token\<close>
  returns \<^verbatim>\<open>None\<close>, which it does on the empty input.
\<close>

function shlex_tokens :: "string \<Rightarrow> lex_error + string list" where
  "shlex_tokens [] = Inr []"
| "shlex_tokens (c # cs) =
     (case read_token Whitespace Whitespace False [] (c # cs) of
        Inl e \<Rightarrow> Inl e
      | Inr (None, rest) \<Rightarrow> Inr []
      | Inr (Some t, rest) \<Rightarrow>
          (case shlex_tokens rest of Inl e \<Rightarrow> Inl e | Inr ts \<Rightarrow> Inr (t # ts)))"
  by pat_completeness auto
termination
  by (relation "measure length")
     (auto simp del: read_token.simps dest!: read_token_progress simp: le_imp_less_Suc)

section \<open>Simple commands\<close>

definition separators :: "string list" where
  "separators = ['';'', ''|'', ''||'', ''&&'', ''&'', [newline]]"

definition redirections :: "string list" where
  "redirections = [''>'', ''>>'', ''<'', ''2>'', ''2>>'', ''&>'', ''&>>'']"

text \<open>The loop of \<^verbatim>\<open>parse_command_tokens\<close> over the tokens; \<open>cur\<close> is
  \<^verbatim>\<open>current_command\<close>, the result is \<^verbatim>\<open>commands\<close>.\<close>

fun split_commands :: "string list \<Rightarrow> string list \<Rightarrow> string list list" where
  "split_commands [] cur = (if cur \<noteq> [] then [cur] else [])"
| "split_commands (t # ts) cur =
     (if t \<in> set separators then
        (if cur \<noteq> [] then cur # split_commands ts [] else split_commands ts [])
      else if t \<in> set redirections then
        (case ts of
           [] \<Rightarrow> split_commands [] (cur @ [t])
         | f # rest \<Rightarrow> split_commands rest (cur @ [t, f]))
      else split_commands ts (cur @ [t]))"

text \<open>\<^verbatim>\<open>parse_command_tokens\<close>: \<open>None\<close> is the source's \<^verbatim>\<open>None\<close>, returned on
  a \<^verbatim>\<open>ValueError\<close> of the lexer.\<close>

definition parse_command_tokens :: "string \<Rightarrow> string list list option" where
  "parse_command_tokens command =
     (case shlex_tokens command of
        Inl e \<Rightarrow> None
      | Inr tokens \<Rightarrow> Some (split_commands tokens []))"

section \<open>Paths: \<^verbatim>\<open>os.path\<close> on POSIX\<close>

text \<open>\<^verbatim>\<open>os.path.basename\<close>: what follows the last slash.\<close>

definition basename :: "string \<Rightarrow> string" where
  "basename p = rev (takeWhile (\<lambda>c. c \<noteq> CHR ''/'') (rev p))"

definition isabs :: "string \<Rightarrow> bool" where
  "isabs p = startswith p ''/''"

text \<open>\<^verbatim>\<open>os.path.join(a, b)\<close>\<close>

definition path_join :: "string \<Rightarrow> string \<Rightarrow> string" where
  "path_join a b =
     (if startswith b ''/'' then b
      else if a = [] \<or> last a = CHR ''/'' then a @ b
      else a @ ''/'' @ b)"

text \<open>\<^verbatim>\<open>os.path.normpath\<close>. One or two leading slashes are kept, three or more are one.\<close>

definition initial_slashes :: "string \<Rightarrow> nat" where
  "initial_slashes path =
     (if startswith path ''/'' then
        (if startswith path ''//'' \<and> \<not> startswith path ''///'' then 2 else 1)
      else 0)"

fun normpath_comps :: "nat \<Rightarrow> string list \<Rightarrow> string list \<Rightarrow> string list" where
  "normpath_comps sl [] new_comps = new_comps"
| "normpath_comps sl (component # comps) new_comps =
     (if component = [] \<or> component = ''.'' then normpath_comps sl comps new_comps
      else if component \<noteq> ''..'' \<or> (sl = 0 \<and> new_comps = [])
                \<or> (new_comps \<noteq> [] \<and> last new_comps = ''..'') then
        normpath_comps sl comps (new_comps @ [component])
      else if new_comps \<noteq> [] then normpath_comps sl comps (butlast new_comps)
      else normpath_comps sl comps new_comps)"

definition normpath :: "string \<Rightarrow> string" where
  "normpath path =
     (if path = [] then ''.''
      else
        (let sl = initial_slashes path;
             comps = normpath_comps sl (split_on (CHR ''/'') [] path) [];
             p = replicate sl (CHR ''/'') @ join ''/'' comps
         in if p = [] then ''.'' else p))"

text \<open>
  The file system is a parameter of the model: \<^verbatim>\<open>os.path.isdir\<close>,
  \<^verbatim>\<open>os.path.exists\<close> and \<^verbatim>\<open>os.path.realpath\<close>, whose \<^verbatim>\<open>OSError\<close> is \<open>Inl\<close> with
  the text of the error.
\<close>

record filesystem =
  isdir :: "string \<Rightarrow> bool"
  path_exists :: "string \<Rightarrow> bool"
  realpath :: "string \<Rightarrow> string + string"

section \<open>The path resolver\<close>

text \<open>\<^verbatim>\<open>re.search(pattern, s)\<close> for a pattern given by the test "the pattern matches at
  the start of this suffix of \<open>s\<close>".\<close>

fun re_search :: "(string \<Rightarrow> bool) \<Rightarrow> string \<Rightarrow> bool" where
  "re_search m [] = m []"
| "re_search m (c # cs) = (m (c # cs) \<or> re_search m cs)"

text \<open>A literal pattern.\<close>

definition lit :: "string \<Rightarrow> string \<Rightarrow> bool" where
  "lit p s = startswith s p"

text \<open>The pattern for a backquoted command: a backquote, one or more characters other
  than a backquote, a backquote.\<close>

fun backquoted :: "string \<Rightarrow> bool" where
  "backquoted [] = False"
| "backquoted (c # cs) =
     (c = CHR 0x60 \<and> takeWhile (\<lambda>d. d \<noteq> CHR 0x60) cs \<noteq> []
        \<and> dropWhile (\<lambda>d. d \<noteq> CHR 0x60) cs \<noteq> [])"

text \<open>The pattern \<^verbatim>\<open>\$[A-Za-z_]\<close>.\<close>

definition ascii_name_start :: "char \<Rightarrow> bool" where
  "ascii_name_start c =
     (let n = (of_char c :: nat)
      in (65 \<le> n \<and> n \<le> 90) \<or> (97 \<le> n \<and> n \<le> 122) \<or> c = CHR ''_'')"

fun dollar_name :: "string \<Rightarrow> bool" where
  "dollar_name (c # d # cs) = (c = CHR ''$'' \<and> ascii_name_start d)"
| "dollar_name _ = False"

text \<open>The pattern \<^verbatim>\<open>\[.*\]\<close>: the dot matches every character but the newline.\<close>

fun bracketed :: "string \<Rightarrow> bool" where
  "bracketed [] = False"
| "bracketed (c # cs) =
     (c = CHR ''['' \<and> CHR '']'' \<in> set (takeWhile (\<lambda>d. d \<noteq> newline) cs))"

definition UNRESOLVABLE_PATTERNS :: "(string \<Rightarrow> bool) list" where
  "UNRESOLVABLE_PATTERNS =
     [lit ''${'', lit ''$('', backquoted, dollar_name, lit ''*'', lit ''?'', bracketed]"

definition resolve_path :: "filesystem \<Rightarrow> string \<Rightarrow> string \<Rightarrow> string \<Rightarrow> string option" where
  "resolve_path fs path cwd home =
     (if list_ex (\<lambda>pattern. re_search pattern path) UNRESOLVABLE_PATTERNS then None
      else if startswith path ''~'' \<and> \<not> (path = ''~'' \<or> startswith path ''~/'') then None
      else
        (let path1 = (if startswith path ''~'' then home @ drop 1 path else path);
             path2 = (if \<not> isabs path1 then path_join cwd path1 else path1);
             path3 = normpath path2
         in if path_exists fs path3 then
              (case realpath fs path3 of Inr real \<Rightarrow> Some real | Inl err \<Rightarrow> Some path3)
            else Some path3))"

definition is_path_within_directory :: "string \<Rightarrow> string \<Rightarrow> bool" where
  "is_path_within_directory path directory =
     (let path' = normpath path; directory' = normpath directory
      in if path' = directory' then True else startswith path' (directory' @ ''/''))"

section \<open>The classifier\<close>

definition DANGEROUS_COMMANDS :: "string list" where
  "DANGEROUS_COMMANDS =
     [''rm'', ''unlink'', ''rmdir'', ''shred'',
      ''/bin/rm'', ''/usr/bin/rm'', ''/bin/unlink'', ''/usr/bin/unlink'']"

definition COMMAND_EXECUTORS :: "string list" where
  "COMMAND_EXECUTORS =
     [''xargs'', ''parallel'', ''find'', ''sudo'', ''doas'', ''env'', ''nice'', ''nohup'',
      ''time'', ''timeout'', ''watch'', ''sh'', ''bash'', ''zsh'', ''dash'', ''fish'']"

text \<open>The two tuples that \<^verbatim>\<open>extract_rm_targets\<close> tests the command name against.\<close>

definition wrappers :: "string list" where
  "wrappers = [''sudo'', ''doas'', ''env'', ''nice'', ''nohup'', ''time'', ''timeout'']"

definition shells :: "string list" where
  "shells = [''sh'', ''bash'', ''zsh'', ''dash'', ''fish'']"

text \<open>\<^verbatim>\<open>cmd in DANGEROUS_COMMANDS or cmd == 'rm'\<close>\<close>

definition is_rm_like :: "string \<Rightarrow> bool" where
  "is_rm_like cmd = (cmd \<in> set DANGEROUS_COMMANDS \<or> cmd = ''rm'')"

section \<open>The recursive expander\<close>

text \<open>The wrapper loop: where the wrapped command starts. The last argument is
  \<^verbatim>\<open>tokens[sub_start:]\<close>, so that \<^verbatim>\<open>sub_start < len(tokens)\<close> is the test that it is
  not empty.\<close>

function wrapper_sub_start :: "string \<Rightarrow> nat \<Rightarrow> string list \<Rightarrow> nat" where
  "wrapper_sub_start cmd sub_start [] = sub_start"
| "wrapper_sub_start cmd sub_start (token # rest) =
     (if startswith token ''-'' then
        (if cmd = ''sudo'' \<and> token \<in> set [''-u'', ''-g'', ''-C''] then
           wrapper_sub_start cmd (sub_start + 2) (drop 1 rest)
         else if cmd = ''timeout'' \<and> sub_start = 1 then
           wrapper_sub_start cmd (sub_start + 1) rest
         else wrapper_sub_start cmd (sub_start + 1) rest)
      else if CHR ''='' \<in> set token \<and> cmd = ''env'' then
        wrapper_sub_start cmd (sub_start + 1) rest
      else sub_start)"
  by pat_completeness auto
termination
  by (relation "measure (\<lambda>(cmd, sub_start, tokens). length tokens)") auto

text \<open>The shell loop over \<^verbatim>\<open>tokens[1:]\<close>: the token after the first \<^verbatim>\<open>-c\<close> that has a
  token after it.\<close>

fun find_dash_c :: "string list \<Rightarrow> string option" where
  "find_dash_c (a # b # rest) = (if a = ''-c'' then Some b else find_dash_c (b # rest))"
| "find_dash_c _ = None"

text \<open>The loop of the \<^verbatim>\<open>find\<close> case, over all tokens: one reason for each
  \<^verbatim>\<open>-exec\<close>-like token followed by a deletion command.\<close>

definition exec_flags :: "string list" where
  "exec_flags = [''-exec'', ''-execdir'', ''-ok'', ''-okdir'']"

fun find_exec_reasons :: "string list \<Rightarrow> string list" where
  "find_exec_reasons (a # b # rest) =
     (if a \<in> set exec_flags \<and> is_rm_like (basename b)
      then [''find '' @ a @ '' with rm - paths are dynamic''] else [])
       @ find_exec_reasons (b # rest)"
| "find_exec_reasons _ = []"

text \<open>The option loop of the deletion case, over \<^verbatim>\<open>tokens[1:]\<close>: the tokens from the
  first path argument on.\<close>

fun skip_rm_options :: "string list \<Rightarrow> string list" where
  "skip_rm_options [] = []"
| "skip_rm_options (token # rest) =
     (if token = ''--'' then rest
      else if startswith token ''--'' \<and> CHR ''='' \<in> set token then skip_rm_options rest
      else if startswith token ''--'' then skip_rm_options rest
      else if startswith token ''-'' \<and> length token > 1 \<and> token ! 1 \<noteq> CHR ''-'' then
        skip_rm_options rest
      else token # rest)"

text \<open>The loop over the path arguments.\<close>

fun resolve_all :: "filesystem \<Rightarrow> string list \<Rightarrow> string \<Rightarrow> string \<Rightarrow> string list \<times> string list"
where
  "resolve_all fs [] cwd home = ([], [])"
| "resolve_all fs (path_arg # rest) cwd home =
     (let (resolved_paths, unresolvable_reasons) = resolve_all fs rest cwd home
      in case resolve_path fs path_arg cwd home of
           None \<Rightarrow> (resolved_paths, (''Unresolvable path: '' @ path_arg) # unresolvable_reasons)
         | Some resolved \<Rightarrow> (resolved # resolved_paths, unresolvable_reasons))"

text \<open>Sizes, for the termination of the expander: the characters of the tokens of a
  command are characters of the string that was tokenized.\<close>

definition chars :: "string list \<Rightarrow> nat" where
  "chars tokens = sum_list (map length tokens)"

lemma read_token_chars:
  "read_token st esc quoted tok cs = Inr (Some t, rest) \<Longrightarrow>
   length t + length rest \<le> length tok + length cs + (if st = Escape then 1 else 0)"
proof (induction st esc quoted tok cs rule: read_token.induct)
  case (2 esc quoted tok c cs)
  then show ?case
    using length_skip_line [of cs] by (auto simp: emit_def split: if_splits)
next
  case (6 esc quoted tok c cs)
  then show ?case
    by (cases esc) (auto split: if_splits)
next
  case (8 esc quoted tok c cs)
  then show ?case
    using length_skip_line [of cs] by (auto simp: emit_def split: if_splits)
next
  case (10 esc quoted tok c cs)
  then show ?case
    using length_skip_line [of cs] by (auto simp: emit_def split: if_splits)
qed (auto simp: emit_def split: if_splits)

lemma shlex_tokens_chars: "shlex_tokens cs = Inr ts \<Longrightarrow> chars ts \<le> length cs"
proof (induction cs arbitrary: ts rule: shlex_tokens.induct)
  case 1
  then show ?case by (simp add: chars_def)
next
  case (2 c cs)
  show ?case
  proof (cases "read_token Whitespace Whitespace False [] (c # cs)")
    case (Inl e)
    with "2.prems" show ?thesis by simp
  next
    case (Inr r)
    obtain topt rest where r: "r = (topt, rest)" by (cases r)
    show ?thesis
    proof (cases topt)
      case None
      with "2.prems" Inr r show ?thesis by (simp add: chars_def)
    next
      case (Some t)
      from "2.prems" Inr r Some obtain ts' where
        ts': "shlex_tokens rest = Inr ts'" and ts: "ts = t # ts'"
        by (auto split: sum.splits)
      from "2.IH" [OF Inr r [symmetric] Some ts'] have "chars ts' \<le> length rest" .
      moreover from read_token_chars [of Whitespace Whitespace False "[]" "c # cs" t rest]
        Inr r Some have "length t + length rest \<le> length (c # cs)" by simp
      ultimately show ?thesis using ts by (simp add: chars_def)
    qed
  qed
qed

lemma split_commands_chars:
  "x \<in> set (split_commands ts cur) \<Longrightarrow> chars x \<le> chars cur + chars ts"
  by (induction ts cur arbitrary: x rule: split_commands.induct)
     (fastforce simp: chars_def split: if_splits list.splits)+

lemma parse_command_tokens_chars:
  "parse_command_tokens s = Some cmds \<Longrightarrow> x \<in> set cmds \<Longrightarrow> chars x \<le> length s"
  using split_commands_chars [of x _ "[]"] shlex_tokens_chars [of s]
  by (fastforce simp: parse_command_tokens_def chars_def split: sum.splits)

lemma find_dash_c_chars: "find_dash_c ts = Some s \<Longrightarrow> length s \<le> chars ts"
  by (induction ts rule: find_dash_c.induct) (auto simp: chars_def split: if_splits)

lemma chars_drop: "chars (drop n ts) \<le> chars ts"
proof -
  have "chars ts = chars (take n ts) + chars (drop n ts)"
    unfolding chars_def by (metis append_take_drop_id map_append sum_list_append)
  then show ?thesis by simp
qed

lemma basename_nonempty: "basename t \<noteq> [] \<Longrightarrow> t \<noteq> []"
  by (auto simp: basename_def)

lemma wrapper_sub_start_ge: "sub_start \<le> wrapper_sub_start cmd sub_start tokens"
proof (induction cmd sub_start tokens rule: wrapper_sub_start.induct)
  case (1 cmd sub_start)
  show ?case by simp
next
  case (2 cmd sub_start token rest)
  let ?sudo = "cmd = ''sudo'' \<and> token \<in> set [''-u'', ''-g'', ''-C'']"
  let ?timeout = "cmd = ''timeout'' \<and> sub_start = 1"
  let ?env = "CHR ''='' \<in> set token \<and> cmd = ''env''"
  consider (a) "startswith token ''-''" ?sudo
    | (b) "startswith token ''-''" "\<not> ?sudo" ?timeout
    | (c) "startswith token ''-''" "\<not> ?sudo" "\<not> ?timeout"
    | (d) "\<not> startswith token ''-''" ?env
    | (e) "\<not> startswith token ''-''" "\<not> ?env"
    by blast
  then show ?case
  proof cases
    case a
    from "2.IH"(1) [OF a] have "sub_start + 2 \<le> wrapper_sub_start cmd (sub_start + 2) (drop 1 rest)" .
    moreover have "wrapper_sub_start cmd sub_start (token # rest) =
        wrapper_sub_start cmd (sub_start + 2) (drop 1 rest)"
      using a by simp
    ultimately show ?thesis by simp
  next
    case b
    from "2.IH"(2) [OF b] have "sub_start + 1 \<le> wrapper_sub_start cmd (sub_start + 1) rest" .
    moreover have "wrapper_sub_start cmd sub_start (token # rest) =
        wrapper_sub_start cmd (sub_start + 1) rest"
      using b by simp
    ultimately show ?thesis by simp
  next
    case c
    from "2.IH"(3) [OF c] have "sub_start + 1 \<le> wrapper_sub_start cmd (sub_start + 1) rest" .
    moreover have "wrapper_sub_start cmd sub_start (token # rest) =
        wrapper_sub_start cmd (sub_start + 1) rest"
      using c by auto
    ultimately show ?thesis by simp
  next
    case d
    from "2.IH"(4) [OF d] have "sub_start + 1 \<le> wrapper_sub_start cmd (sub_start + 1) rest" .
    moreover have "wrapper_sub_start cmd sub_start (token # rest) =
        wrapper_sub_start cmd (sub_start + 1) rest"
      using d by simp
    ultimately show ?thesis by simp
  next
    case e
    have "wrapper_sub_start cmd sub_start (token # rest) = sub_start"
      using e by auto
    then show ?thesis by simp
  qed
qed

text \<open>
  \<^verbatim>\<open>extract_rm_targets\<close>: the resolved paths and the unresolvable reasons of one simple
  command.
\<close>

function extract_rm_targets ::
  "filesystem \<Rightarrow> string list \<Rightarrow> string \<Rightarrow> string \<Rightarrow> string list \<times> string list"
where
  "extract_rm_targets fs [] cwd home = ([], [])"
| "extract_rm_targets fs (t # ts) cwd home =
     (let tokens = t # ts; cmd = basename t
      in if cmd \<in> set wrappers then
           (let sub_start = wrapper_sub_start cmd 1 ts
            in if sub_start < length tokens
               then extract_rm_targets fs (drop sub_start tokens) cwd home
               else ([], []))
         else if cmd \<in> set shells then
           (case find_dash_c ts of
              Some payload \<Rightarrow>
                (case parse_command_tokens payload of
                   None \<Rightarrow> ([], [''Malformed nested command in '' @ cmd @ '' -c''])
                 | Some nested_commands \<Rightarrow>
                     (let results =
                            map (\<lambda>nested_cmd. extract_rm_targets fs nested_cmd cwd home)
                              nested_commands
                      in (concat (map fst results), concat (map snd results))))
            | None \<Rightarrow> ([], []))
         else if cmd = ''xargs'' then
           (case dropWhile (\<lambda>token. startswith token ''-'') ts of
              [] \<Rightarrow> ([], [])
            | sub # rest \<Rightarrow>
                if is_rm_like (basename sub)
                then ([], [''xargs with rm - paths come from stdin''])
                else ([], []))
         else if cmd = ''find'' then ([], find_exec_reasons tokens)
         else if \<not> is_rm_like cmd then ([], [])
         else resolve_all fs (skip_rm_options ts) cwd home)"
  by pat_completeness auto
termination
proof (relation "measure (\<lambda>(fs, tokens, cwd, home). chars tokens)")
  show "wf (measure (\<lambda>(fs, tokens, cwd, home). chars tokens))"
    by simp
next
  fix fs :: filesystem and t :: string and ts :: "string list" and cwd home :: string
    and tokens :: "string list" and cmd :: string and sub_start :: nat
  assume tokens: "tokens = t # ts" and cmd: "cmd = basename t"
    and w: "cmd \<in> set wrappers"
    and sub: "sub_start = wrapper_sub_start cmd 1 ts"
    and lt: "sub_start < length tokens"
  from w cmd have "basename t \<noteq> []"
    by (auto simp: wrappers_def)
  then have "t \<noteq> []"
    by (rule basename_nonempty)
  moreover have "1 \<le> sub_start"
    unfolding sub by (rule wrapper_sub_start_ge)
  then obtain n where "sub_start = Suc n"
    by (cases sub_start) simp_all
  ultimately have "chars (drop sub_start tokens) < chars tokens"
    using chars_drop [of n ts] tokens by (cases t) (simp_all add: chars_def)
  then show "((fs, drop sub_start tokens, cwd, home), fs, t # ts, cwd, home)
      \<in> measure (\<lambda>(fs, tokens, cwd, home). chars tokens)"
    using tokens by simp
next
  fix fs :: filesystem and t :: string and ts :: "string list" and cwd home :: string
    and tokens :: "string list" and cmd :: string and payload :: string
    and nested_commands :: "string list list" and nested_cmd :: "string list"
  assume cmd: "cmd = basename t" and sh: "cmd \<in> set shells"
    and c: "find_dash_c ts = Some payload"
    and p: "parse_command_tokens payload = Some nested_commands"
    and x: "nested_cmd \<in> set nested_commands"
  from sh cmd have "basename t \<noteq> []"
    by (auto simp: shells_def)
  then have "t \<noteq> []"
    by (rule basename_nonempty)
  moreover have "chars nested_cmd \<le> chars ts"
    using parse_command_tokens_chars [OF p x] find_dash_c_chars [OF c] by simp
  ultimately show "((fs, nested_cmd, cwd, home), fs, t # ts, cwd, home)
      \<in> measure (\<lambda>(fs, tokens, cwd, home). chars tokens)"
    by (cases t) (simp_all add: chars_def)
qed

declare extract_rm_targets.simps [simp del]

section \<open>The decision engine\<close>

text \<open>The loop of \<^verbatim>\<open>check_command\<close> over the simple commands: the accumulated resolved
  paths and unresolvable reasons.\<close>

fun analyze_commands ::
  "filesystem \<Rightarrow> string list list \<Rightarrow> string \<Rightarrow> string \<Rightarrow> string list \<times> string list"
where
  "analyze_commands fs [] cwd home = ([], [])"
| "analyze_commands fs (cmd_tokens # rest) cwd home =
     (let (paths, unresolvable) =
            (case cmd_tokens of
               [] \<Rightarrow> ([], [])
             | t # ts \<Rightarrow>
                 if basename t \<in> set DANGEROUS_COMMANDS \<or> basename t \<in> set COMMAND_EXECUTORS
                 then extract_rm_targets fs cmd_tokens cwd home
                 else ([], []));
          (all_resolved_paths, all_unresolvable) = analyze_commands fs rest cwd home
      in (paths @ all_resolved_paths, unresolvable @ all_unresolvable))"

text \<open>The three diagnostics of \<^verbatim>\<open>check_command\<close>.\<close>

definition malformed_message :: "string \<Rightarrow> string" where
  "malformed_message command =
     ''BLOCKED: Malformed command (unclosed quotes or syntax error)'' @ [newline]
       @ ''  Command: '' @ command"

definition unresolvable_message :: "string list \<Rightarrow> string \<Rightarrow> string \<Rightarrow> string" where
  "unresolvable_message all_unresolvable command abs_cwd =
     ''BLOCKED: Command contains rm with unresolvable paths (safety block)'' @ [newline]
       @ ''  Reasons:'' @ [newline]
       @ ''  - '' @ join ([newline] @ ''  - '') all_unresolvable @ [newline]
       @ ''  Command: '' @ command @ [newline]
       @ ''  Working directory: '' @ abs_cwd"

definition outside_message :: "string \<Rightarrow> string \<Rightarrow> string \<Rightarrow> string" where
  "outside_message path abs_cwd command =
     ''BLOCKED: rm targets path outside working directory'' @ [newline]
       @ ''  Target: '' @ path @ [newline]
       @ ''  Working directory: '' @ abs_cwd @ [newline]
       @ ''  Command: '' @ command"

text \<open>\<^verbatim>\<open>check_command\<close>: the error message of a blocked command, \<open>None\<close> for an
  allowed one.\<close>

definition check_command ::
  "filesystem \<Rightarrow> string \<Rightarrow> string \<Rightarrow> string \<Rightarrow> string \<Rightarrow> string option"
where
  "check_command fs command cwd home abs_cwd =
     (case parse_command_tokens command of
        None \<Rightarrow> Some (malformed_message command)
      | Some commands \<Rightarrow>
          (let (all_resolved_paths, all_unresolvable) = analyze_commands fs commands cwd home
           in if all_unresolvable \<noteq> [] then
                Some (unresolvable_message all_unresolvable command abs_cwd)
              else
                (case find (\<lambda>path. \<not> is_path_within_directory path abs_cwd)
                        all_resolved_paths of
                   Some path \<Rightarrow> Some (outside_message path abs_cwd command)
                 | None \<Rightarrow> None)))"

section \<open>The program\<close>

text \<open>The word characters of \<^verbatim>\<open>\b\<close> in a pattern on \<^verbatim>\<open>str\<close>: the letters, digits and
  numeric characters among the code points below 256, and the underscore.\<close>

definition is_word_char :: "char \<Rightarrow> bool" where
  "is_word_char c =
     (let n = (of_char c :: nat)
      in (48 \<le> n \<and> n \<le> 57) \<or> (65 \<le> n \<and> n \<le> 90) \<or> n = 95 \<or> (97 \<le> n \<and> n \<le> 122)
           \<or> n \<in> set [170, 178, 179, 181, 185, 186, 188, 189, 190]
           \<or> (192 \<le> n \<and> n \<noteq> 215 \<and> n \<noteq> 247))"

fun next_is_word :: "string \<Rightarrow> bool" where
  "next_is_word [] = False"
| "next_is_word (c # cs) = is_word_char c"

text \<open>The pattern \<^verbatim>\<open>\bname\b\<close> matches at the start of \<open>s\<close>; \<open>prev\<close> tells whether the
  character in front of \<open>s\<close> is a word character.\<close>

definition bounded_word :: "string \<Rightarrow> bool \<Rightarrow> string \<Rightarrow> bool" where
  "bounded_word name prev s =
     (prev \<noteq> next_is_word s \<and> startswith s name
        \<and> (if name = [] then prev else is_word_char (last name))
              \<noteq> next_is_word (drop (length name) s))"

fun search_word :: "string \<Rightarrow> bool \<Rightarrow> string \<Rightarrow> bool" where
  "search_word name prev [] = bounded_word name prev []"
| "search_word name prev (c # cs) =
     (bounded_word name prev (c # cs) \<or> search_word name (is_word_char c) cs)"

text \<open>The quick check of \<^verbatim>\<open>main\<close>.\<close>

definition has_dangerous :: "string \<Rightarrow> bool" where
  "has_dangerous command =
     (list_ex (\<lambda>cmd. search_word cmd False command) DANGEROUS_COMMANDS
        \<or> list_ex (\<lambda>cmd. search_word cmd False command) COMMAND_EXECUTORS)"

text \<open>
  The request is the JSON object with the defaults of \<^verbatim>\<open>get\<close> filled in; the outcome is
  the exit status, with the text written to the error stream.
\<close>

record request =
  req_tool_name :: string
  req_command :: string
  req_cwd :: string

datatype outcome = Exit0 | Exit2 string

text \<open>\<^verbatim>\<open>main\<close>. The input is the parsed request, or the text of the
  \<^verbatim>\<open>JSONDecodeError\<close>; \<open>home\<close> is the home directory read from the environment.\<close>

definition main :: "filesystem \<Rightarrow> string \<Rightarrow> string + request \<Rightarrow> outcome" where
  "main fs home input =
     (case input of
        Inl e \<Rightarrow> Exit2 (''ERROR: Invalid JSON input: '' @ e)
      | Inr input_data \<Rightarrow>
          if req_tool_name input_data \<noteq> ''Bash'' then Exit0
          else if req_command input_data = [] then Exit0
          else if req_cwd input_data = [] \<or> \<not> isdir fs (req_cwd input_data) then
            Exit2 (''ERROR: Invalid or missing working directory: '' @ req_cwd input_data)
          else
            (case realpath fs (req_cwd input_data) of
               Inl e \<Rightarrow> Exit2 (''ERROR: Cannot resolve working directory: '' @ e)
             | Inr abs_cwd \<Rightarrow>
                 if \<not> has_dangerous (req_command input_data) then Exit0
                 else
                   (case check_command fs (req_command input_data) (req_cwd input_data)
                           home abs_cwd of
                      Some error \<Rightarrow> if error \<noteq> [] then Exit2 error else Exit0
                    | None \<Rightarrow> Exit0)))"

section \<open>Unterminated quoting\<close>

text \<open>
  Unterminated quoting, in the words of the specification and without reference to tokens:
  scanning the command from left to right, a quotation or an escape is still open where
  the command ends. Outside a quotation, a backslash escapes the next character and a
  quote character opens a quotation; a quotation is closed by its own quote character,
  and inside double quotes a backslash escapes the next character.
\<close>

datatype quoting = Outside | Inside char | Escaped quoting

fun open_at_end :: "quoting \<Rightarrow> string \<Rightarrow> bool" where
  "open_at_end Outside [] = False"
| "open_at_end (Inside q) [] = True"
| "open_at_end (Escaped s) [] = True"
| "open_at_end Outside (c # cs) =
     (if c = backslash then open_at_end (Escaped Outside) cs
      else if c = squote \<or> c = dquote then open_at_end (Inside c) cs
      else open_at_end Outside cs)"
| "open_at_end (Inside q) (c # cs) =
     (if c = q then open_at_end Outside cs
      else if c = backslash \<and> q = dquote then open_at_end (Escaped (Inside q)) cs
      else open_at_end (Inside q) cs)"
| "open_at_end (Escaped s) (c # cs) = open_at_end s cs"

definition unterminated_quoting :: "string \<Rightarrow> bool" where
  "unterminated_quoting command = open_at_end Outside command"

text \<open>The same scan finds a \<^verbatim>\<open>#\<close> outside every quotation and escape.\<close>

fun unquoted_hash :: "quoting \<Rightarrow> string \<Rightarrow> bool" where
  "unquoted_hash s [] = False"
| "unquoted_hash Outside (c # cs) =
     (if c = CHR ''#'' then True
      else if c = backslash then unquoted_hash (Escaped Outside) cs
      else if c = squote \<or> c = dquote then unquoted_hash (Inside c) cs
      else unquoted_hash Outside cs)"
| "unquoted_hash (Inside q) (c # cs) =
     (if c = q then unquoted_hash Outside cs
      else if c = backslash \<and> q = dquote then unquoted_hash (Escaped (Inside q)) cs
      else unquoted_hash (Inside q) cs)"
| "unquoted_hash (Escaped s) (c # cs) = unquoted_hash s cs"

text \<open>
  The scan of the lexer differs in one rule: outside a quotation, after the whitespace
  test, a character of \<^verbatim>\<open>commenters\<close> makes it drop the rest of the line.
\<close>

function lexer_open_at_end :: "quoting \<Rightarrow> string \<Rightarrow> bool" where
  "lexer_open_at_end Outside [] = False"
| "lexer_open_at_end (Inside q) [] = True"
| "lexer_open_at_end (Escaped s) [] = True"
| "lexer_open_at_end Outside (c # cs) =
     (if c \<in> set whitespace then lexer_open_at_end Outside cs
      else if c \<in> set commenters then lexer_open_at_end Outside (skip_line cs)
      else if c = backslash then lexer_open_at_end (Escaped Outside) cs
      else if c = squote \<or> c = dquote then lexer_open_at_end (Inside c) cs
      else lexer_open_at_end Outside cs)"
| "lexer_open_at_end (Inside q) (c # cs) =
     (if c = q then lexer_open_at_end Outside cs
      else if c = backslash \<and> q = dquote then lexer_open_at_end (Escaped (Inside q)) cs
      else lexer_open_at_end (Inside q) cs)"
| "lexer_open_at_end (Escaped s) (c # cs) = lexer_open_at_end s cs"
  by pat_completeness auto
termination
  by (relation "measure (\<lambda>(s, cs). length cs)") (auto simp: length_skip_line le_imp_less_Suc)

text \<open>The quoting that a state of the lexer stands for.\<close>

fun quoting_of :: "lex_state \<Rightarrow> quoting" where
  "quoting_of (Quote q) = Inside q"
| "quoting_of _ = Outside"

fun lexer_quoting :: "lex_state \<Rightarrow> lex_state \<Rightarrow> quoting" where
  "lexer_quoting Escape esc = Escaped (quoting_of esc)"
| "lexer_quoting st esc = quoting_of st"

lemma wordchars_not_quotes: "c \<in> set wordchars \<Longrightarrow> c \<noteq> squote \<and> c \<noteq> dquote"
  by (auto simp: wordchars_def latin1_wordchars_def squote_def dquote_def)

lemma punctuation_not_quotes: "c \<in> set punctuation_chars \<Longrightarrow> c \<noteq> squote \<and> c \<noteq> dquote"
  by (auto simp: punctuation_chars_def squote_def dquote_def)

lemma backslash_not_quote: "backslash \<noteq> squote" "backslash \<noteq> dquote"
  by (simp_all add: backslash_def squote_def dquote_def)

lemma in_escape: "c \<in> set escape \<longleftrightarrow> c = backslash"
  by (simp add: escape_def)

lemma in_quotes: "c \<in> set quotes \<longleftrightarrow> c = squote \<or> c = dquote"
  by (simp add: quotes_def)

lemma in_escapedquotes: "c \<in> set escapedquotes \<longleftrightarrow> c = dquote"
  by (simp add: escapedquotes_def)

lemma read_token_quoting:
  "esc \<noteq> Escape \<Longrightarrow>
   ((read_token st esc quoted tok cs = Inl e \<longrightarrow> lexer_open_at_end (lexer_quoting st esc) cs)
         \<and> (read_token st esc quoted tok cs = Inr (r, rest) \<longrightarrow>
              lexer_open_at_end (lexer_quoting st esc) cs = lexer_open_at_end Outside rest))"
proof (induction st esc quoted tok cs rule: read_token.induct)
  case (1 esc quoted tok)
  then show ?case by simp
next
  case (2 esc quoted tok c cs)
  note esc = \<open>esc \<noteq> Escape\<close>
  show ?case
  proof (cases "c \<in> set whitespace")
    case ws: True
    show ?thesis
    proof (cases "tok \<noteq> [] \<or> quoted")
      case True
      with ws show ?thesis by simp
    next
      case False
      from "2.IH"(1) [OF ws False esc] have
        "(read_token Whitespace esc quoted tok cs = Inl e \<longrightarrow> lexer_open_at_end Outside cs)
         \<and> (read_token Whitespace esc quoted tok cs = Inr (r, rest) \<longrightarrow>
              lexer_open_at_end Outside cs = lexer_open_at_end Outside rest)"
        by simp
      with ws False show ?thesis by simp
    qed
  next
    case nws: False
    show ?thesis
    proof (cases "c \<in> set commenters")
      case cm: True
      from "2.IH"(2) [OF nws cm esc] have
        "(read_token Whitespace esc quoted tok (skip_line cs) = Inl e \<longrightarrow> lexer_open_at_end Outside (skip_line cs))
         \<and> (read_token Whitespace esc quoted tok (skip_line cs) = Inr (r, rest) \<longrightarrow>
              lexer_open_at_end Outside (skip_line cs) = lexer_open_at_end Outside rest)"
        by simp
      with nws cm show ?thesis by simp
    next
      case ncm: False
      show ?thesis
      proof (cases "c \<in> set escape")
        case es: True
        from "2.IH"(3) [OF nws ncm es] have
          "(read_token Escape Word quoted tok cs = Inl e \<longrightarrow> lexer_open_at_end (Escaped Outside) cs)
         \<and> (read_token Escape Word quoted tok cs = Inr (r, rest) \<longrightarrow>
              lexer_open_at_end (Escaped Outside) cs = lexer_open_at_end Outside rest)"
          by simp
        moreover from es have "c = backslash" by (simp add: in_escape)
        ultimately show ?thesis using nws ncm es by simp
      next
        case nes: False
        then have nb: "c \<noteq> backslash" by (simp add: in_escape)
        show ?thesis
        proof (cases "c \<in> set wordchars")
          case wc: True
          from "2.IH"(4) [OF nws ncm nes wc esc] have
            "(read_token Word esc quoted [c] cs = Inl e \<longrightarrow> lexer_open_at_end Outside cs)
         \<and> (read_token Word esc quoted [c] cs = Inr (r, rest) \<longrightarrow>
              lexer_open_at_end Outside cs = lexer_open_at_end Outside rest)"
            by simp
          with nws ncm nes nb wc wordchars_not_quotes [OF wc] show ?thesis by simp
        next
          case nwc: False
          show ?thesis
          proof (cases "c \<in> set punctuation_chars")
            case pc: True
            from "2.IH"(5) [OF nws ncm nes nwc pc esc] have
              "(read_token Punct esc quoted [c] cs = Inl e \<longrightarrow> lexer_open_at_end Outside cs)
         \<and> (read_token Punct esc quoted [c] cs = Inr (r, rest) \<longrightarrow>
              lexer_open_at_end Outside cs = lexer_open_at_end Outside rest)"
              by simp
            with nws ncm nes nb nwc pc punctuation_not_quotes [OF pc] show ?thesis by simp
          next
            case npc: False
            show ?thesis
            proof (cases "c \<in> set quotes")
              case qc: True
              from "2.IH"(6) [OF nws ncm nes nwc npc qc esc] have
                "(read_token (Quote c) esc quoted tok cs = Inl e \<longrightarrow> lexer_open_at_end (Inside c) cs)
         \<and> (read_token (Quote c) esc quoted tok cs = Inr (r, rest) \<longrightarrow>
              lexer_open_at_end (Inside c) cs = lexer_open_at_end Outside rest)"
                by simp
              moreover from qc have "c = squote \<or> c = dquote" by (simp add: in_quotes)
              ultimately show ?thesis using nws ncm nes nb nwc npc qc by simp
            next
              case nqc: False
              then have "\<not> (c = squote \<or> c = dquote)" by (simp add: in_quotes)
              with nws ncm nes nb nwc npc nqc show ?thesis by simp
            qed
          qed
        qed
      qed
    qed
  qed
next
  case (3 q esc quoted tok)
  then show ?case by simp
next
  case (4 q esc quoted tok c cs)
  note esc = \<open>esc \<noteq> Escape\<close>
  show ?case
  proof (cases "c = q")
    case eq: True
    from "4.IH"(1) [OF eq esc] have
      "(read_token Word esc True tok cs = Inl e \<longrightarrow> lexer_open_at_end Outside cs)
         \<and> (read_token Word esc True tok cs = Inr (r, rest) \<longrightarrow>
              lexer_open_at_end Outside cs = lexer_open_at_end Outside rest)"
      by simp
    with eq show ?thesis by simp
  next
    case neq: False
    show ?thesis
    proof (cases "c \<in> set escape \<and> q \<in> set escapedquotes")
      case es: True
      from "4.IH"(2) [OF neq es] have
        "(read_token Escape (Quote q) True tok cs = Inl e \<longrightarrow> lexer_open_at_end (Escaped (Inside q)) cs)
         \<and> (read_token Escape (Quote q) True tok cs = Inr (r, rest) \<longrightarrow>
              lexer_open_at_end (Escaped (Inside q)) cs = lexer_open_at_end Outside rest)"
        by simp
      moreover from es have "c = backslash \<and> q = dquote"
        by (simp add: in_escape in_escapedquotes)
      ultimately show ?thesis using neq by (simp add: in_escape in_escapedquotes)
    next
      case nes: False
      from "4.IH"(3) [OF neq nes esc] have
        "(read_token (Quote q) esc True (tok @ [c]) cs = Inl e \<longrightarrow> lexer_open_at_end (Inside q) cs)
         \<and> (read_token (Quote q) esc True (tok @ [c]) cs = Inr (r, rest) \<longrightarrow>
              lexer_open_at_end (Inside q) cs = lexer_open_at_end Outside rest)"
        by simp
      moreover from nes have "\<not> (c = backslash \<and> q = dquote)"
        by (simp add: in_escape in_escapedquotes)
      ultimately show ?thesis using neq by (auto simp: in_escape in_escapedquotes)
    qed
  qed
next
  case (5 esc quoted tok)
  then show ?case by simp
next
  case (6 esc quoted tok c cs)
  then show ?case
    by (cases esc) simp_all
next
  case (7 esc quoted tok)
  then show ?case by simp
next
  case (8 esc quoted tok c cs)
  note esc = \<open>esc \<noteq> Escape\<close>
  show ?case
  proof (cases "c \<in> set whitespace")
    case ws: True
    show ?thesis
    proof (cases "tok \<noteq> [] \<or> quoted")
      case True
      with ws show ?thesis by simp
    next
      case False
      from "8.IH"(1) [OF ws False esc] have
        "(read_token Whitespace esc quoted tok cs = Inl e \<longrightarrow> lexer_open_at_end Outside cs)
         \<and> (read_token Whitespace esc quoted tok cs = Inr (r, rest) \<longrightarrow>
              lexer_open_at_end Outside cs = lexer_open_at_end Outside rest)"
        by simp
      with ws False show ?thesis by simp
    qed
  next
    case nws: False
    show ?thesis
    proof (cases "c \<in> set commenters")
      case cm: True
      show ?thesis
      proof (cases "tok \<noteq> [] \<or> quoted")
        case True
        with nws cm show ?thesis by simp
      next
        case False
        from "8.IH"(2) [OF nws cm False esc] have
          "(read_token Whitespace esc quoted tok (skip_line cs) = Inl e \<longrightarrow> lexer_open_at_end Outside (skip_line cs))
         \<and> (read_token Whitespace esc quoted tok (skip_line cs) = Inr (r, rest) \<longrightarrow>
              lexer_open_at_end Outside (skip_line cs) = lexer_open_at_end Outside rest)"
          by simp
        with nws cm False show ?thesis by simp
      qed
    next
      case ncm: False
      show ?thesis
      proof (cases "c \<in> set quotes")
        case qc: True
        from "8.IH"(3) [OF nws ncm qc esc] have
          "(read_token (Quote c) esc quoted tok cs = Inl e \<longrightarrow> lexer_open_at_end (Inside c) cs)
         \<and> (read_token (Quote c) esc quoted tok cs = Inr (r, rest) \<longrightarrow>
              lexer_open_at_end (Inside c) cs = lexer_open_at_end Outside rest)"
          by simp
        moreover from qc have q: "c = squote \<or> c = dquote" by (simp add: in_quotes)
        moreover from q backslash_not_quote have "c \<noteq> backslash" by auto
        ultimately show ?thesis using nws ncm qc by simp
      next
        case nqc: False
        then have nq: "\<not> (c = squote \<or> c = dquote)" by (simp add: in_quotes)
        show ?thesis
        proof (cases "c \<in> set escape")
          case es: True
          from "8.IH"(4) [OF nws ncm nqc es] have
            "(read_token Escape Word quoted tok cs = Inl e \<longrightarrow> lexer_open_at_end (Escaped Outside) cs)
         \<and> (read_token Escape Word quoted tok cs = Inr (r, rest) \<longrightarrow>
              lexer_open_at_end (Escaped Outside) cs = lexer_open_at_end Outside rest)"
            by simp
          moreover from es have "c = backslash" by (simp add: in_escape)
          ultimately show ?thesis using nws ncm nqc es by simp
        next
          case nes: False
          then have nb: "c \<noteq> backslash" by (simp add: in_escape)
          show ?thesis
          proof (cases "c \<in> set wordchars")
            case wc: True
            from "8.IH"(5) [OF nws ncm nqc nes wc esc] have
              "(read_token Word esc quoted (tok @ [c]) cs = Inl e \<longrightarrow> lexer_open_at_end Outside cs)
         \<and> (read_token Word esc quoted (tok @ [c]) cs = Inr (r, rest) \<longrightarrow>
              lexer_open_at_end Outside cs = lexer_open_at_end Outside rest)"
              by simp
            with nws ncm nqc nq nes nb wc show ?thesis by simp
          next
            case nwc: False
            show ?thesis
            proof (cases "tok \<noteq> [] \<or> quoted")
              case True
              with nws ncm nqc nes nwc show ?thesis by simp
            next
              case False
              have eq: "read_token Word esc quoted tok (c # cs)
                  = read_token Whitespace esc quoted tok (c # cs)"
                using nws ncm nqc nes nwc False by simp
              from "8.IH"(6) [OF nws ncm nqc nes nwc False esc] show ?thesis
                unfolding eq by simp
            qed
          qed
        qed
      qed
    qed
  qed
next
  case (9 esc quoted tok)
  then show ?case by simp
next
  case (10 esc quoted tok c cs)
  note esc = \<open>esc \<noteq> Escape\<close>
  show ?case
  proof (cases "c \<in> set whitespace")
    case ws: True
    show ?thesis
    proof (cases "tok \<noteq> [] \<or> quoted")
      case True
      with ws show ?thesis by simp
    next
      case False
      from "10.IH"(1) [OF ws False esc] have
        "(read_token Whitespace esc quoted tok cs = Inl e \<longrightarrow> lexer_open_at_end Outside cs)
         \<and> (read_token Whitespace esc quoted tok cs = Inr (r, rest) \<longrightarrow>
              lexer_open_at_end Outside cs = lexer_open_at_end Outside rest)"
        by simp
      with ws False show ?thesis by simp
    qed
  next
    case nws: False
    show ?thesis
    proof (cases "c \<in> set commenters")
      case cm: True
      show ?thesis
      proof (cases "tok \<noteq> [] \<or> quoted")
        case True
        with nws cm show ?thesis by simp
      next
        case False
        from "10.IH"(2) [OF nws cm False esc] have
          "(read_token Whitespace esc quoted tok (skip_line cs) = Inl e \<longrightarrow> lexer_open_at_end Outside (skip_line cs))
         \<and> (read_token Whitespace esc quoted tok (skip_line cs) = Inr (r, rest) \<longrightarrow>
              lexer_open_at_end Outside (skip_line cs) = lexer_open_at_end Outside rest)"
          by simp
        with nws cm False show ?thesis by simp
      qed
    next
      case ncm: False
      show ?thesis
      proof (cases "c \<in> set punctuation_chars")
        case pc: True
        from "10.IH"(3) [OF nws ncm pc esc] have
          "(read_token Punct esc quoted (tok @ [c]) cs = Inl e \<longrightarrow> lexer_open_at_end Outside cs)
         \<and> (read_token Punct esc quoted (tok @ [c]) cs = Inr (r, rest) \<longrightarrow>
              lexer_open_at_end Outside cs = lexer_open_at_end Outside rest)"
          by simp
        moreover have "c \<noteq> backslash"
          using pc by (auto simp: punctuation_chars_def backslash_def)
        ultimately show ?thesis
          using nws ncm pc punctuation_not_quotes [OF pc] by simp
      next
        case npc: False
        with nws ncm show ?thesis by simp
      qed
    qed
  qed
qed

lemma read_token_None:
  "read_token st esc quoted tok cs = Inr (None, rest) \<Longrightarrow> (st = Punct \<longrightarrow> tok \<noteq> []) \<Longrightarrow>
   rest = []"
proof (induction st esc quoted tok cs rule: read_token.induct)
  case (6 esc quoted tok c cs)
  then show ?case
    by (cases esc) (auto split: if_splits)
qed (auto simp: emit_def split: if_splits)

text \<open>The lexer raises its \<^verbatim>\<open>ValueError\<close> exactly on the commands that its own scan
  leaves open.\<close>

lemma shlex_tokens_fails_iff:
  "(\<exists>e. shlex_tokens cs = Inl e) \<longleftrightarrow> lexer_open_at_end Outside cs"
proof (induction cs rule: shlex_tokens.induct)
  case 1
  show ?case by simp
next
  case (2 c cs)
  show ?case
  proof (cases "read_token Whitespace Whitespace False [] (c # cs)")
    case (Inl e)
    from read_token_quoting [of Whitespace Whitespace False "[]" "c # cs" e] Inl
    have "lexer_open_at_end Outside (c # cs)"
      by (simp del: read_token.simps lexer_open_at_end.simps)
    with Inl show ?thesis
      by (simp del: read_token.simps lexer_open_at_end.simps)
  next
    case (Inr result)
    obtain r rest where result: "result = (r, rest)"
      by (cases result)
    from read_token_quoting [of Whitespace Whitespace False "[]" "c # cs" _ r rest] Inr result
    have same: "lexer_open_at_end Outside (c # cs) = lexer_open_at_end Outside rest"
      by (simp del: read_token.simps lexer_open_at_end.simps)
    show ?thesis
    proof (cases r)
      case None
      with Inr result have "rest = []"
        using read_token_None [of Whitespace Whitespace False "[]" "c # cs" rest] by simp
      with same have "\<not> lexer_open_at_end Outside (c # cs)"
        by (simp del: lexer_open_at_end.simps(4))
      with Inr result None show ?thesis
        by (simp del: read_token.simps lexer_open_at_end.simps)
    next
      case (Some t)
      from "2.IH" [OF Inr result [symmetric] Some]
      have "(\<exists>e. shlex_tokens rest = Inl e) \<longleftrightarrow> lexer_open_at_end Outside rest" .
      with same Inr result Some show ?thesis
        by (cases "shlex_tokens rest") (simp_all del: read_token.simps lexer_open_at_end.simps)
    qed
  qed
qed

text \<open>On a command without a \<^verbatim>\<open>#\<close> outside quotations, the two scans agree.\<close>

lemma whitespace_plain:
  "c \<in> set whitespace \<Longrightarrow> c \<noteq> backslash \<and> c \<noteq> squote \<and> c \<noteq> dquote \<and> c \<noteq> CHR ''#''"
  by (auto simp: whitespace_def backslash_def squote_def dquote_def)

lemma lexer_open_at_end_plain:
  "\<not> unquoted_hash s cs \<Longrightarrow> lexer_open_at_end s cs = open_at_end s cs"
proof (induction s cs rule: lexer_open_at_end.induct)
  case (4 c cs)
  then show ?case
    using whitespace_plain [of c] by (auto simp: commenters_def split: if_splits)
qed (auto split: if_splits)

lemma unterminated_nonempty: "unterminated_quoting command \<Longrightarrow> command \<noteq> []"
  by (auto simp: unterminated_quoting_def)

section \<open>Verdicts on concrete command lines\<close>

text \<open>A file system in which every directory exists, no other path exists and every path
  is its own real path: the verdicts below are the ones of the lexical analysis.\<close>

definition bare_fs :: filesystem where
  "bare_fs = \<lparr>isdir = (\<lambda>p. True), path_exists = (\<lambda>p. False), realpath = (\<lambda>p. Inr p)\<rparr>"

text \<open>The request for a command in the working directory \<^verbatim>\<open>/home/u/project\<close>.\<close>

definition bash_request :: "string \<Rightarrow> string + request" where
  "bash_request command =
     Inr \<lparr>req_tool_name = ''Bash'', req_command = command, req_cwd = ''/home/u/project''\<rparr>"

text \<open>A file system in which \<^verbatim>\<open>/home/u/project/link\<close> is a symbolic link to
  \<^verbatim>\<open>/etc\<close> and nothing else exists.\<close>

definition link_fs :: filesystem where
  "link_fs =
     \<lparr>isdir = (\<lambda>p. True),
      path_exists = (\<lambda>p. p = ''/home/u/project/link''),
      realpath = (\<lambda>p. if p = ''/home/u/project/link'' then Inr ''/etc'' else Inr p)\<rparr>"

section \<open>Lemmas about the analysis\<close>

text \<open>A simple command whose head is in neither set contributes nothing, so the loop of
  \<^verbatim>\<open>check_command\<close> loses nothing by skipping it.\<close>

lemma extract_rm_targets_untracked:
  assumes "basename t \<notin> set DANGEROUS_COMMANDS" and "basename t \<notin> set COMMAND_EXECUTORS"
  shows "extract_rm_targets fs (t # ts) cwd home = ([], [])"
proof -
  from assms(2) have "basename t \<notin> set wrappers" and "basename t \<notin> set shells"
    and "basename t \<noteq> ''xargs''" and "basename t \<noteq> ''find''"
    by (simp_all add: COMMAND_EXECUTORS_def wrappers_def shells_def)
  moreover from assms(1) have "\<not> is_rm_like (basename t)"
    by (simp add: is_rm_like_def DANGEROUS_COMMANDS_def)
  ultimately show ?thesis
    by (simp add: extract_rm_targets.simps)
qed

lemma analyze_commands_reasons:
  "cmd_tokens \<in> set commands \<Longrightarrow>
   set (snd (extract_rm_targets fs cmd_tokens cwd home))
     \<subseteq> set (snd (analyze_commands fs commands cwd home))"
proof (induction commands)
  case Nil
  then show ?case by simp
next
  case (Cons c cs)
  show ?case
  proof (cases "cmd_tokens = c")
    case True
    show ?thesis
    proof (cases c)
      case Nil
      with True show ?thesis by (simp add: extract_rm_targets.simps)
    next
      case (Cons t ts)
      show ?thesis
      proof (cases "basename t \<in> set DANGEROUS_COMMANDS \<or> basename t \<in> set COMMAND_EXECUTORS")
        case True
        with \<open>cmd_tokens = c\<close> Cons show ?thesis
          by (auto simp: split_def Let_def)
      next
        case False
        then have "extract_rm_targets fs (t # ts) cwd home = ([], [])"
          using extract_rm_targets_untracked by blast
        with \<open>cmd_tokens = c\<close> Cons show ?thesis by simp
      qed
    qed
  next
    case False
    with Cons.prems have "cmd_tokens \<in> set cs" by simp
    from Cons.IH [OF this] show ?thesis
      by (auto simp: split_def Let_def)
  qed
qed

lemma check_command_parsed:
  "parse_command_tokens command = Some commands \<Longrightarrow>
   check_command fs command cwd home abs_cwd =
     (if snd (analyze_commands fs commands cwd home) \<noteq> [] then
        Some (unresolvable_message (snd (analyze_commands fs commands cwd home)) command abs_cwd)
      else
        (case find (\<lambda>path. \<not> is_path_within_directory path abs_cwd)
                (fst (analyze_commands fs commands cwd home)) of
           Some path \<Rightarrow> Some (outside_message path abs_cwd command)
         | None \<Rightarrow> None))"
  by (simp add: check_command_def split_def)

lemma is_path_within_directory_iff:
  "is_path_within_directory path directory \<longleftrightarrow>
     normpath path = normpath directory
       \<or> startswith (normpath path) (normpath directory @ ''/'')"
  by (simp add: is_path_within_directory_def Let_def)

lemma find_None_iff_all: "find P xs = None \<longleftrightarrow> (\<forall>x \<in> set xs. \<not> P x)"
  by (induction xs) auto

lemma find_Some_first: "find P xs = Some x \<Longrightarrow> x \<in> set xs \<and> P x"
  by (induction xs) (auto split: if_splits)

lemma has_dangerous_nonempty: "has_dangerous command \<Longrightarrow> command \<noteq> []"
proof
  assume "has_dangerous command" and "command = []"
  then have "has_dangerous []" by simp
  moreover have "\<not> has_dangerous []" by code_simp
  ultimately show False by simp
qed




lemma is_rm_like_not_executor:
  "is_rm_like cmd \<Longrightarrow>
   cmd \<notin> set wrappers \<and> cmd \<notin> set shells \<and> cmd \<noteq> ''xargs'' \<and> cmd \<noteq> ''find''"
  by (auto simp: is_rm_like_def DANGEROUS_COMMANDS_def wrappers_def shells_def)

lemma extract_rm_targets_deletion:
  "is_rm_like (basename t) \<Longrightarrow>
   extract_rm_targets fs (t # ts) cwd home = resolve_all fs (skip_rm_options ts) cwd home"
  using is_rm_like_not_executor [of "basename t"]
  by (simp add: extract_rm_targets.simps Let_def)

lemma resolve_all_reason:
  "a \<in> set args \<Longrightarrow> resolve_path fs a cwd home = None \<Longrightarrow>
   ''Unresolvable path: '' @ a \<in> set (snd (resolve_all fs args cwd home))"
  by (induction args) (auto simp: split_def Let_def split: option.splits)

lemma startswith_append: "startswith (p @ s) p"
  by (induction p) simp_all

lemma contains_here: "startswith s sub \<Longrightarrow> contains s sub"
  by (cases s; cases sub) simp_all

lemma contains_append: "contains (pre @ sub @ post) sub"
  by (induction pre) (simp_all add: contains_here startswith_append)

lemma startswith_split: "startswith s sub \<Longrightarrow> \<exists>post. s = sub @ post"
  by (induction s sub rule: startswith.induct) auto

lemma contains_split: "contains s sub \<Longrightarrow> \<exists>pre post. s = pre @ sub @ post"
proof (induction s)
  case Nil
  then show ?case by simp
next
  case (Cons c cs)
  show ?case
  proof (cases "startswith (c # cs) sub")
    case True
    then obtain post where "c # cs = sub @ post"
      using startswith_split by blast
    then have "c # cs = [] @ sub @ post" by simp
    then show ?thesis by blast
  next
    case False
    with Cons.prems have "contains cs sub" by simp
    with Cons.IH obtain pre post where "cs = pre @ sub @ post" by blast
    then have "c # cs = (c # pre) @ sub @ post" by simp
    then show ?thesis by blast
  qed
qed

lemma contains_within: "contains s sub \<Longrightarrow> contains (pre @ s @ post) sub"
proof -
  assume "contains s sub"
  then obtain a b where "s = a @ sub @ b"
    using contains_split by blast
  then have "pre @ s @ post = (pre @ a) @ sub @ (b @ post)"
    by simp
  then show ?thesis
    using contains_append [of "pre @ a" sub "b @ post"] by simp
qed

lemma contains_join: "x \<in> set xs \<Longrightarrow> contains (join sep xs) x"
proof (induction sep xs rule: join.induct)
  case (1 sep)
  then show ?case by simp
next
  case (2 sep y)
  then show ?case
    using contains_append [of "[]" x "[]"] by simp
next
  case (3 sep y z zs)
  show ?case
  proof (cases "x = y")
    case True
    then show ?thesis
      using contains_append [of "[]" y "sep @ join sep (z # zs)"] by simp
  next
    case False
    with "3.prems" have "x \<in> set (z # zs)" by simp
    from "3.IH" [OF this] have "contains (join sep (z # zs)) x" .
    from contains_within [OF this, of "y @ sep" "[]"] show ?thesis
      by simp
  qed
qed

lemma find_first:
  "(\<forall>p \<in> set before. \<not> P p) \<Longrightarrow> P x \<Longrightarrow> find P (before @ x # after) = Some x"
  by (induction before) simp_all

text \<open>What \<^verbatim>\<open>main\<close> does with a request that reaches the full analysis.\<close>

lemma main_analyzed:
  "req_tool_name r = ''Bash'' \<Longrightarrow> has_dangerous (req_command r) \<Longrightarrow>
   req_cwd r \<noteq> [] \<Longrightarrow> isdir fs (req_cwd r) \<Longrightarrow> realpath fs (req_cwd r) = Inr abs_cwd \<Longrightarrow>
   main fs home (Inr r) =
     (case check_command fs (req_command r) (req_cwd r) home abs_cwd of
        Some error \<Rightarrow> if error \<noteq> [] then Exit2 error else Exit0
      | None \<Rightarrow> Exit0)"
  using has_dangerous_nonempty [of "req_command r"] by (simp add: main_def)

section \<open>Properties\<close>

text \<open>
  C1, as stated: when no unresolvable reason exists, every resolved path that fails the
  containment test yields a block that cites this path. For \<^verbatim>\<open>rm /tmp/x ~/z\<close> in the
  working directory \<^verbatim>\<open>/w/p\<close> with the home directory \<^verbatim>\<open>/h\<close>, the paths \<^verbatim>\<open>/tmp/x\<close>
  and \<^verbatim>\<open>/h/z\<close> both fail the test; the loop returns at the first of them, and
  \<^verbatim>\<open>/h/z\<close> does not occur in the diagnostic.
\<close>

theorem containment_counterexample:
  "parse_command_tokens ''rm /tmp/x ~/z'' = Some [[''rm'', ''/tmp/x'', ''~/z'']]
   \<and> analyze_commands bare_fs [[''rm'', ''/tmp/x'', ''~/z'']] ''/w/p'' ''/h''
       = ([''/tmp/x'', ''/h/z''], [])
   \<and> \<not> is_path_within_directory ''/h/z'' ''/w/p''
   \<and> check_command bare_fs ''rm /tmp/x ~/z'' ''/w/p'' ''/h'' ''/w/p''
       = Some (''BLOCKED: rm targets path outside working directory'' @ [newline]
               @ ''  Target: /tmp/x'' @ [newline]
               @ ''  Working directory: /w/p'' @ [newline]
               @ ''  Command: rm /tmp/x ~/z'')
   \<and> \<not> contains (''BLOCKED: rm targets path outside working directory'' @ [newline]
               @ ''  Target: /tmp/x'' @ [newline]
               @ ''  Working directory: /w/p'' @ [newline]
               @ ''  Command: rm /tmp/x ~/z'') ''/h/z''"
  by code_simp

text \<open>
  C1, amended. When the analysis of a line yields no unresolvable reason, the verdict is
  allow exactly if every accumulated resolved path, normalized, is the normalized working
  directory or starts with it followed by a slash. Otherwise the verdict is a block, and
  its diagnostic cites as target the first path, in the order of accumulation, that fails
  this test; a request that reaches the analysis then exits 2 with this diagnostic.
\<close>

theorem containment_decides:
  "parse_command_tokens command = Some commands \<Longrightarrow>
   analyze_commands fs commands cwd home = (paths, []) \<Longrightarrow>
   (check_command fs command cwd home abs_cwd = None \<longleftrightarrow>
      (\<forall>path \<in> set paths.
         normpath path = normpath abs_cwd
           \<or> startswith (normpath path) (normpath abs_cwd @ ''/'')))
   \<and> ((\<exists>path \<in> set paths. \<not> is_path_within_directory path abs_cwd) \<longrightarrow>
        (\<exists>before path after. paths = before @ path # after
           \<and> (\<forall>p \<in> set before. is_path_within_directory p abs_cwd)
           \<and> \<not> is_path_within_directory path abs_cwd))
   \<and> (\<forall>before path after.
         paths = before @ path # after
         \<and> (\<forall>p \<in> set before. is_path_within_directory p abs_cwd)
         \<and> \<not> is_path_within_directory path abs_cwd \<longrightarrow>
         check_command fs command cwd home abs_cwd
           = Some (''BLOCKED: rm targets path outside working directory'' @ [newline]
                   @ ''  Target: '' @ path @ [newline]
                   @ ''  Working directory: '' @ abs_cwd @ [newline]
                   @ ''  Command: '' @ command)
         \<and> contains (the (check_command fs command cwd home abs_cwd)) (''Target: '' @ path)
         \<and> (\<forall>r. req_tool_name r = ''Bash'' \<and> req_command r = command \<and> req_cwd r = cwd
                \<and> has_dangerous command \<and> cwd \<noteq> [] \<and> isdir fs cwd
                \<and> realpath fs cwd = Inr abs_cwd \<longrightarrow>
                main fs home (Inr r)
                  = Exit2 (''BLOCKED: rm targets path outside working directory'' @ [newline]
                           @ ''  Target: '' @ path @ [newline]
                           @ ''  Working directory: '' @ abs_cwd @ [newline]
                           @ ''  Command: '' @ command)))"
proof -
  assume parsed: "parse_command_tokens command = Some commands"
    and analyzed: "analyze_commands fs commands cwd home = (paths, [])"
  let ?outside = "\<lambda>p. \<not> is_path_within_directory p abs_cwd"
  let ?diagnostic = "\<lambda>path. ''BLOCKED: rm targets path outside working directory'' @ [newline]
      @ ''  Target: '' @ path @ [newline]
      @ ''  Working directory: '' @ abs_cwd @ [newline]
      @ ''  Command: '' @ command"
  have verdict: "check_command fs command cwd home abs_cwd =
      (case find ?outside paths of
         Some path \<Rightarrow> Some (?diagnostic path)
       | None \<Rightarrow> None)"
    using check_command_parsed [OF parsed, of fs cwd home abs_cwd] analyzed
    by (simp add: outside_message_def split: option.splits)
  have allow: "check_command fs command cwd home abs_cwd = None \<longleftrightarrow>
      (\<forall>path \<in> set paths. normpath path = normpath abs_cwd
          \<or> startswith (normpath path) (normpath abs_cwd @ ''/''))"
  proof -
    have "check_command fs command cwd home abs_cwd = None \<longleftrightarrow> find ?outside paths = None"
      using verdict by (simp split: option.splits)
    also have "\<dots> \<longleftrightarrow> (\<forall>path \<in> set paths. is_path_within_directory path abs_cwd)"
      by (simp add: find_None_iff_all)
    finally show ?thesis
      by (simp add: is_path_within_directory_iff)
  qed
  have first: "(\<exists>path \<in> set paths. ?outside path) \<longrightarrow>
      (\<exists>before path after. paths = before @ path # after
         \<and> (\<forall>p \<in> set before. is_path_within_directory p abs_cwd) \<and> ?outside path)"
  proof
    assume "\<exists>path \<in> set paths. ?outside path"
    from split_list_first_prop [OF this]
    show "\<exists>before path after. paths = before @ path # after
        \<and> (\<forall>p \<in> set before. is_path_within_directory p abs_cwd) \<and> ?outside path"
      by auto
  qed
  have block: "check_command fs command cwd home abs_cwd = Some (?diagnostic path)
      \<and> contains (the (check_command fs command cwd home abs_cwd)) (''Target: '' @ path)
      \<and> (\<forall>r. req_tool_name r = ''Bash'' \<and> req_command r = command \<and> req_cwd r = cwd
             \<and> has_dangerous command \<and> cwd \<noteq> [] \<and> isdir fs cwd
             \<and> realpath fs cwd = Inr abs_cwd \<longrightarrow>
             main fs home (Inr r) = Exit2 (?diagnostic path))"
    if split: "paths = before @ path # after"
      and inside: "\<forall>p \<in> set before. is_path_within_directory p abs_cwd"
      and outside: "?outside path"
    for before path after
  proof -
    have "find ?outside paths = Some path"
      unfolding split using inside outside by (intro find_first) simp_all
    with verdict have checked: "check_command fs command cwd home abs_cwd = Some (?diagnostic path)"
      by simp
    have cited: "contains (?diagnostic path) (''Target: '' @ path)"
      using contains_append [of "''BLOCKED: rm targets path outside working directory''
          @ [newline] @ ''  ''" "''Target: '' @ path"
        "[newline] @ ''  Working directory: '' @ abs_cwd @ [newline] @ ''  Command: '' @ command"]
      by simp
    have exits: "main fs home (Inr r) = Exit2 (?diagnostic path)"
      if "req_tool_name r = ''Bash'' \<and> req_command r = command \<and> req_cwd r = cwd
          \<and> has_dangerous command \<and> cwd \<noteq> [] \<and> isdir fs cwd \<and> realpath fs cwd = Inr abs_cwd"
      for r
      using main_analyzed [of r fs abs_cwd home] that checked by simp
    from checked cited exits show ?thesis
      by simp
  qed
  have cited_first: "\<forall>before path after.
      paths = before @ path # after
      \<and> (\<forall>p \<in> set before. is_path_within_directory p abs_cwd) \<and> ?outside path \<longrightarrow>
      check_command fs command cwd home abs_cwd = Some (?diagnostic path)
      \<and> contains (the (check_command fs command cwd home abs_cwd)) (''Target: '' @ path)
      \<and> (\<forall>r. req_tool_name r = ''Bash'' \<and> req_command r = command \<and> req_cwd r = cwd
             \<and> has_dangerous command \<and> cwd \<noteq> [] \<and> isdir fs cwd
             \<and> realpath fs cwd = Inr abs_cwd \<longrightarrow>
             main fs home (Inr r) = Exit2 (?diagnostic path))"
  proof (intro allI impI)
    fix before path after
    assume "paths = before @ path # after
        \<and> (\<forall>p \<in> set before. is_path_within_directory p abs_cwd) \<and> ?outside path"
    then have split: "paths = before @ path # after"
      and inside: "\<forall>p \<in> set before. is_path_within_directory p abs_cwd"
      and outside: "?outside path"
      by (rule conjunct1, rule conjunct2 [THEN conjunct1], rule conjunct2 [THEN conjunct2])
    from block [OF split inside outside]
    show "check_command fs command cwd home abs_cwd = Some (?diagnostic path)
      \<and> contains (the (check_command fs command cwd home abs_cwd)) (''Target: '' @ path)
      \<and> (\<forall>r. req_tool_name r = ''Bash'' \<and> req_command r = command \<and> req_cwd r = cwd
             \<and> has_dangerous command \<and> cwd \<noteq> [] \<and> isdir fs cwd
             \<and> realpath fs cwd = Inr abs_cwd \<longrightarrow>
             main fs home (Inr r) = Exit2 (?diagnostic path))" .
  qed
  from allow first cited_first show ?thesis
    by (rule conjI [OF _ conjI])
qed

text \<open>Two lines in the working directory \<^verbatim>\<open>/home/u/project\<close>: \<^verbatim>\<open>rm ./notes.txt\<close>, whose
  path is inside it and which is allowed, and \<^verbatim>\<open>rm x /tmp/x /etc\<close>, which is blocked
  with \<^verbatim>\<open>/tmp/x\<close>, the first of its two paths outside.\<close>

theorem containment_decides_witness:
  "parse_command_tokens ''rm ./notes.txt'' = Some [[''rm'', ''./notes.txt'']]
   \<and> analyze_commands bare_fs [[''rm'', ''./notes.txt'']] ''/home/u/project'' ''/home/u''
       = ([''/home/u/project/notes.txt''], [])
   \<and> check_command bare_fs ''rm ./notes.txt'' ''/home/u/project'' ''/home/u'' ''/home/u/project''
       = None
   \<and> parse_command_tokens ''rm x /tmp/x /etc'' = Some [[''rm'', ''x'', ''/tmp/x'', ''/etc'']]
   \<and> analyze_commands bare_fs [[''rm'', ''x'', ''/tmp/x'', ''/etc'']] ''/home/u/project'' ''/home/u''
       = ([''/home/u/project/x''] @ ''/tmp/x'' # [''/etc''], [])
   \<and> is_path_within_directory ''/home/u/project/x'' ''/home/u/project''
   \<and> \<not> is_path_within_directory ''/tmp/x'' ''/home/u/project''
   \<and> check_command bare_fs ''rm x /tmp/x /etc'' ''/home/u/project'' ''/home/u'' ''/home/u/project''
       = Some (''BLOCKED: rm targets path outside working directory'' @ [newline]
               @ ''  Target: /tmp/x'' @ [newline]
               @ ''  Working directory: /home/u/project'' @ [newline]
               @ ''  Command: rm x /tmp/x /etc'')
   \<and> has_dangerous ''rm x /tmp/x /etc''
   \<and> main bare_fs ''/home/u'' (bash_request ''rm x /tmp/x /etc'')
       = Exit2 (''BLOCKED: rm targets path outside working directory'' @ [newline]
                @ ''  Target: /tmp/x'' @ [newline]
                @ ''  Working directory: /home/u/project'' @ [newline]
                @ ''  Command: rm x /tmp/x /etc'')"
proof -
  let ?wd = "''/home/u/project''"
  let ?line = "''rm x /tmp/x /etc''"
  let ?r = "\<lparr>req_tool_name = ''Bash'', req_command = ?line, req_cwd = ?wd\<rparr>"
  have p1: "parse_command_tokens ''rm ./notes.txt'' = Some [[''rm'', ''./notes.txt'']]"
    by code_simp
  have a1: "analyze_commands bare_fs [[''rm'', ''./notes.txt'']] ?wd ''/home/u''
      = ([''/home/u/project/notes.txt''], [])"
    by code_simp
  have n1: "normpath ''/home/u/project/notes.txt'' = ''/home/u/project/notes.txt''"
    and nwd: "normpath ?wd = ?wd"
    by code_simp+
  have allow: "check_command bare_fs ''rm ./notes.txt'' ?wd ''/home/u'' ?wd = None"
    using containment_decides [OF p1 a1, of ?wd] n1 nwd by simp
  have p2: "parse_command_tokens ?line = Some [[''rm'', ''x'', ''/tmp/x'', ''/etc'']]"
    by code_simp
  have a2: "analyze_commands bare_fs [[''rm'', ''x'', ''/tmp/x'', ''/etc'']] ?wd ''/home/u''
      = ([''/home/u/project/x''] @ ''/tmp/x'' # [''/etc''], [])"
    by code_simp
  have inside: "is_path_within_directory ''/home/u/project/x'' ?wd"
    and outside: "\<not> is_path_within_directory ''/tmp/x'' ?wd"
    by code_simp+
  have quick: "has_dangerous ?line"
    by code_simp
  have request: "req_tool_name ?r = ''Bash'' \<and> req_command ?r = ?line \<and> req_cwd ?r = ?wd
      \<and> has_dangerous ?line \<and> ?wd \<noteq> [] \<and> isdir bare_fs ?wd \<and> realpath bare_fs ?wd = Inr ?wd"
    using quick by (simp add: bare_fs_def)
  have first: "[''/home/u/project/x''] @ ''/tmp/x'' # [''/etc'']
        = [''/home/u/project/x''] @ ''/tmp/x'' # [''/etc'']
      \<and> (\<forall>p \<in> set [''/home/u/project/x'']. is_path_within_directory p ?wd)
      \<and> \<not> is_path_within_directory ''/tmp/x'' ?wd"
    using inside outside by simp
  note cited = containment_decides [OF p2 a2, of ?wd, THEN conjunct2, THEN conjunct2,
      THEN spec, THEN spec, THEN spec, THEN mp, OF first]
  from cited [THEN conjunct1]
  have block: "check_command bare_fs ?line ?wd ''/home/u'' ?wd
      = Some (''BLOCKED: rm targets path outside working directory'' @ [newline]
              @ ''  Target: /tmp/x'' @ [newline]
              @ ''  Working directory: /home/u/project'' @ [newline]
              @ ''  Command: rm x /tmp/x /etc'')"
    by simp
  from cited [THEN conjunct2, THEN conjunct2, THEN spec, THEN mp, OF request]
  have exits: "main bare_fs ''/home/u'' (bash_request ?line)
      = Exit2 (''BLOCKED: rm targets path outside working directory'' @ [newline]
               @ ''  Target: /tmp/x'' @ [newline]
               @ ''  Working directory: /home/u/project'' @ [newline]
               @ ''  Command: rm x /tmp/x /etc'')"
    by (simp add: bash_request_def)
  show ?thesis
    using p1 a1 allow p2 a2 inside outside block quick exits
    by (intro conjI)
qed

text \<open>
  C2. If the analysis of a simple command of the line yields an unresolvable reason, the
  verdict is a block, whatever the resolved paths are: its diagnostic lists all
  accumulated reasons, those of this command among them, and a request that reaches the
  analysis exits 2 with this diagnostic.
\<close>

theorem unresolvable_reason_blocks:
  "parse_command_tokens command = Some commands \<Longrightarrow>
   cmd_tokens \<in> set commands \<Longrightarrow>
   snd (extract_rm_targets fs cmd_tokens cwd home) \<noteq> [] \<Longrightarrow>
   set (snd (extract_rm_targets fs cmd_tokens cwd home))
     \<subseteq> set (snd (analyze_commands fs commands cwd home))
   \<and> check_command fs command cwd home abs_cwd
       = Some (''BLOCKED: Command contains rm with unresolvable paths (safety block)'' @ [newline]
               @ ''  Reasons:'' @ [newline]
               @ ''  - '' @ join ([newline] @ ''  - '') (snd (analyze_commands fs commands cwd home))
               @ [newline]
               @ ''  Command: '' @ command @ [newline]
               @ ''  Working directory: '' @ abs_cwd)
   \<and> (\<forall>reason \<in> set (snd (analyze_commands fs commands cwd home)).
         contains (the (check_command fs command cwd home abs_cwd)) reason)
   \<and> (\<forall>r. req_tool_name r = ''Bash'' \<and> req_command r = command \<and> req_cwd r = cwd
          \<and> has_dangerous command \<and> cwd \<noteq> [] \<and> isdir fs cwd
          \<and> realpath fs cwd = Inr abs_cwd \<longrightarrow>
          main fs home (Inr r) = Exit2 (the (check_command fs command cwd home abs_cwd)))"
proof -
  assume parsed: "parse_command_tokens command = Some commands"
    and member: "cmd_tokens \<in> set commands"
    and reason: "snd (extract_rm_targets fs cmd_tokens cwd home) \<noteq> []"
  let ?reasons = "snd (analyze_commands fs commands cwd home)"
  let ?diagnostic = "''BLOCKED: Command contains rm with unresolvable paths (safety block)''
      @ [newline] @ ''  Reasons:'' @ [newline]
      @ ''  - '' @ join ([newline] @ ''  - '') ?reasons @ [newline]
      @ ''  Command: '' @ command @ [newline]
      @ ''  Working directory: '' @ abs_cwd"
  have sub: "set (snd (extract_rm_targets fs cmd_tokens cwd home)) \<subseteq> set ?reasons"
    using member by (rule analyze_commands_reasons)
  with reason have "?reasons \<noteq> []"
    by (cases "snd (extract_rm_targets fs cmd_tokens cwd home)") auto
  with check_command_parsed [OF parsed, of fs cwd home abs_cwd]
  have checked: "check_command fs command cwd home abs_cwd = Some ?diagnostic"
    by (simp add: unresolvable_message_def)
  have listed: "\<forall>reason \<in> set ?reasons.
      contains (the (check_command fs command cwd home abs_cwd)) reason"
  proof
    fix reason
    assume "reason \<in> set ?reasons"
    then have "contains (join ([newline] @ ''  - '') ?reasons) reason"
      by (rule contains_join)
    from contains_within [OF this,
        of "''BLOCKED: Command contains rm with unresolvable paths (safety block)''
          @ [newline] @ ''  Reasons:'' @ [newline] @ ''  - ''"
        "[newline] @ ''  Command: '' @ command @ [newline] @ ''  Working directory: '' @ abs_cwd"]
    show "contains (the (check_command fs command cwd home abs_cwd)) reason"
      unfolding checked by simp
  qed
  have exits: "\<forall>r. req_tool_name r = ''Bash'' \<and> req_command r = command \<and> req_cwd r = cwd
      \<and> has_dangerous command \<and> cwd \<noteq> [] \<and> isdir fs cwd \<and> realpath fs cwd = Inr abs_cwd \<longrightarrow>
      main fs home (Inr r) = Exit2 (the (check_command fs command cwd home abs_cwd))"
  proof (intro allI impI)
    fix r :: request
    assume "req_tool_name r = ''Bash'' \<and> req_command r = command \<and> req_cwd r = cwd
      \<and> has_dangerous command \<and> cwd \<noteq> [] \<and> isdir fs cwd \<and> realpath fs cwd = Inr abs_cwd"
    then show "main fs home (Inr r) = Exit2 (the (check_command fs command cwd home abs_cwd))"
      using main_analyzed [of r fs abs_cwd home] checked by simp
  qed
  from sub checked listed exits show ?thesis
    by (rule conjI [OF _ conjI [OF _ conjI]])
qed

text \<open>The line \<^verbatim>\<open>rm notes.txt /etc *\<close>: one path inside the working directory, one
  outside it and one unresolvable argument; the reason decides.\<close>

theorem unresolvable_reason_blocks_witness:
  "parse_command_tokens ''rm notes.txt /etc *'' = Some [[''rm'', ''notes.txt'', ''/etc'', ''*'']]
   \<and> [''rm'', ''notes.txt'', ''/etc'', ''*''] \<in> set [[''rm'', ''notes.txt'', ''/etc'', ''*'']]
   \<and> extract_rm_targets bare_fs [''rm'', ''notes.txt'', ''/etc'', ''*''] ''/home/u/project'' ''/home/u''
       = ([''/home/u/project/notes.txt'', ''/etc''], [''Unresolvable path: *''])
   \<and> snd (analyze_commands bare_fs [[''rm'', ''notes.txt'', ''/etc'', ''*'']] ''/home/u/project''
         ''/home/u'') = [''Unresolvable path: *'']
   \<and> check_command bare_fs ''rm notes.txt /etc *'' ''/home/u/project'' ''/home/u'' ''/home/u/project''
       = Some (''BLOCKED: Command contains rm with unresolvable paths (safety block)'' @ [newline]
               @ ''  Reasons:'' @ [newline]
               @ ''  - Unresolvable path: *'' @ [newline]
               @ ''  Command: rm notes.txt /etc *'' @ [newline]
               @ ''  Working directory: /home/u/project'')
   \<and> contains (the (check_command bare_fs ''rm notes.txt /etc *'' ''/home/u/project'' ''/home/u''
         ''/home/u/project'')) ''Unresolvable path: *''
   \<and> has_dangerous ''rm notes.txt /etc *''
   \<and> main bare_fs ''/home/u'' (bash_request ''rm notes.txt /etc *'')
       = Exit2 (''BLOCKED: Command contains rm with unresolvable paths (safety block)'' @ [newline]
                @ ''  Reasons:'' @ [newline]
                @ ''  - Unresolvable path: *'' @ [newline]
                @ ''  Command: rm notes.txt /etc *'' @ [newline]
                @ ''  Working directory: /home/u/project'')"
proof -
  let ?c = "[''rm'', ''notes.txt'', ''/etc'', ''*'']"
  let ?line = "''rm notes.txt /etc *''"
  let ?wd = "''/home/u/project''"
  let ?r = "\<lparr>req_tool_name = ''Bash'', req_command = ?line, req_cwd = ?wd\<rparr>"
  have parsed: "parse_command_tokens ?line = Some [?c]"
    by code_simp
  have member: "?c \<in> set [?c]"
    by simp
  have extracted: "extract_rm_targets bare_fs ?c ?wd ''/home/u''
      = ([''/home/u/project/notes.txt'', ''/etc''], [''Unresolvable path: *''])"
    by code_simp
  then have reason: "snd (extract_rm_targets bare_fs ?c ?wd ''/home/u'') \<noteq> []"
    by simp
  have all: "snd (analyze_commands bare_fs [?c] ?wd ''/home/u'') = [''Unresolvable path: *'']"
    by code_simp
  have quick: "has_dangerous ?line"
    by code_simp
  have request: "req_tool_name ?r = ''Bash'' \<and> req_command ?r = ?line \<and> req_cwd ?r = ?wd
      \<and> has_dangerous ?line \<and> ?wd \<noteq> [] \<and> isdir bare_fs ?wd \<and> realpath bare_fs ?wd = Inr ?wd"
    using quick by (simp add: bare_fs_def)
  note blocks = unresolvable_reason_blocks [OF parsed member reason, of ?wd]
  from blocks [THEN conjunct2, THEN conjunct1]
  have checked: "check_command bare_fs ?line ?wd ''/home/u'' ?wd
      = Some (''BLOCKED: Command contains rm with unresolvable paths (safety block)'' @ [newline]
              @ ''  Reasons:'' @ [newline]
              @ ''  - Unresolvable path: *'' @ [newline]
              @ ''  Command: rm notes.txt /etc *'' @ [newline]
              @ ''  Working directory: /home/u/project'')"
    unfolding all by simp
  from blocks [THEN conjunct2, THEN conjunct2, THEN conjunct1]
  have listed: "contains (the (check_command bare_fs ?line ?wd ''/home/u'' ?wd))
      ''Unresolvable path: *''"
    unfolding all by simp
  from blocks [THEN conjunct2, THEN conjunct2, THEN conjunct2, THEN spec, THEN mp, OF request]
  have exits: "main bare_fs ''/home/u'' (bash_request ?line)
      = Exit2 (''BLOCKED: Command contains rm with unresolvable paths (safety block)'' @ [newline]
               @ ''  Reasons:'' @ [newline]
               @ ''  - Unresolvable path: *'' @ [newline]
               @ ''  Command: rm notes.txt /etc *'' @ [newline]
               @ ''  Working directory: /home/u/project'')"
    unfolding checked by (simp add: bash_request_def)
  show ?thesis
    using parsed member extracted all checked listed quick exits
    by (intro conjI)
qed

text \<open>What holds of C3: a token that reaches the resolver as a path argument of a deletion
  command and matches one of the unresolvable patterns yields a reason, and the line is
  blocked.\<close>

lemma unresolvable_token_blocks:
  assumes "parse_command_tokens command = Some commands"
    and "t # ts \<in> set commands"
    and "is_rm_like (basename t)"
    and "a \<in> set (skip_rm_options ts)"
    and "list_ex (\<lambda>pattern. re_search pattern a) UNRESOLVABLE_PATTERNS"
  shows "''Unresolvable path: '' @ a \<in> set (snd (analyze_commands fs commands cwd home))
    \<and> check_command fs command cwd home abs_cwd =
        Some (unresolvable_message (snd (analyze_commands fs commands cwd home)) command abs_cwd)"
proof -
  from assms(5) have "resolve_path fs a cwd home = None"
    by (simp add: resolve_path_def)
  with assms(4) have "''Unresolvable path: '' @ a
      \<in> set (snd (resolve_all fs (skip_rm_options ts) cwd home))"
    by (rule resolve_all_reason)
  with assms(3) have "''Unresolvable path: '' @ a
      \<in> set (snd (extract_rm_targets fs (t # ts) cwd home))"
    by (simp add: extract_rm_targets_deletion)
  with analyze_commands_reasons [OF assms(2), of fs cwd home]
  have reason: "''Unresolvable path: '' @ a \<in> set (snd (analyze_commands fs commands cwd home))"
    by blast
  then have "snd (analyze_commands fs commands cwd home) \<noteq> []"
    by auto
  with check_command_parsed [OF assms(1), of fs cwd home abs_cwd] reason show ?thesis
    by simp
qed

text \<open>
  C3. A deletion command whose path argument is a variable reference is to be blocked with
  an unresolvable reason. The code allows \<^verbatim>\<open>rm -rf $HOME\<close>: the dollar sign is no word
  character of the lexer, so the argument arrives as the two tokens \<^verbatim>\<open>$\<close> and
  \<^verbatim>\<open>HOME\<close>; neither matches an unresolvable pattern, both resolve to paths inside the
  working directory, and the verdict is allow. It also allows \<^verbatim>\<open>rm "$1"\<close>, where the
  token is \<^verbatim>\<open>$1\<close>: the pattern for a variable asks for a letter or an underscore after
  the dollar sign.
\<close>

theorem unquoted_variable_is_allowed:
  "shlex_tokens ''rm -rf $HOME'' = Inr [''rm'', ''-rf'', ''$'', ''HOME'']
   \<and> extract_rm_targets bare_fs [''rm'', ''-rf'', ''$'', ''HOME''] ''/home/u/project'' ''/home/u''
       = ([''/home/u/project/$'', ''/home/u/project/HOME''], [])
   \<and> check_command bare_fs ''rm -rf $HOME'' ''/home/u/project'' ''/home/u'' ''/home/u/project''
       = None
   \<and> main bare_fs ''/home/u'' (bash_request ''rm -rf $HOME'') = Exit0
   \<and> shlex_tokens (''rm '' @ [dquote] @ ''$1'' @ [dquote]) = Inr [''rm'', ''$1'']
   \<and> check_command bare_fs (''rm '' @ [dquote] @ ''$1'' @ [dquote])
         ''/home/u/project'' ''/home/u'' ''/home/u/project'' = None"
  by code_simp

text \<open>
  C4, as stated: a Bash request with a non-empty command that has unterminated quoting is
  blocked. The command \<^verbatim>\<open>echo "hi\<close> contains no tracked name and is allowed by the quick
  check, although its tokenization fails. The command \<^verbatim>\<open>rm x#"\<close> contains a tracked
  name; the tokenizer takes \<^verbatim>\<open>#\<close> for the start of a comment and never reads the quote
  character, the tokens are those of \<^verbatim>\<open>rm x\<close>, and the request is allowed.
\<close>

theorem unterminated_quote_counterexample:
  "unterminated_quoting (''echo '' @ [dquote] @ ''hi'')
   \<and> ''echo '' @ [dquote] @ ''hi'' \<noteq> []
   \<and> shlex_tokens (''echo '' @ [dquote] @ ''hi'') = Inl No_closing_quotation
   \<and> main bare_fs ''/home/u'' (bash_request (''echo '' @ [dquote] @ ''hi'')) = Exit0
   \<and> unterminated_quoting (''rm x#'' @ [dquote])
   \<and> has_dangerous (''rm x#'' @ [dquote])
   \<and> shlex_tokens (''rm x#'' @ [dquote]) = Inr [''rm'', ''x'']
   \<and> parse_command_tokens (''rm x#'' @ [dquote]) = Some [[''rm'', ''x'']]
   \<and> main bare_fs ''/home/u'' (bash_request (''rm x#'' @ [dquote])) = Exit0"
  by code_simp

text \<open>
  C4, amended. Take a Bash request whose command has unterminated quoting; the command is
  then not empty. If no \<^verbatim>\<open>#\<close> stands outside a quotation, tokenization fails with the
  malformed signal. If moreover the command contains a tracked name as a word, the request
  exits 2, and with a valid working directory the diagnostic is the one for a malformed
  command. If the command contains no tracked name as a word and the working directory is
  valid, the request exits 0. If the working directory is missing or no directory, or its
  real path is not found, the request exits 2 with the diagnostic for the working
  directory.
\<close>

theorem malformed_command_blocks:
  "req_tool_name r = ''Bash'' \<Longrightarrow>
   unterminated_quoting (req_command r) \<Longrightarrow>
   req_command r \<noteq> []
   \<and> (\<not> unquoted_hash Outside (req_command r) \<longrightarrow>
        (\<exists>e. shlex_tokens (req_command r) = Inl e)
        \<and> parse_command_tokens (req_command r) = None)
   \<and> (\<not> unquoted_hash Outside (req_command r) \<and> has_dangerous (req_command r) \<longrightarrow>
        (\<exists>message. message \<noteq> [] \<and> main fs home (Inr r) = Exit2 message)
        \<and> (req_cwd r \<noteq> [] \<and> isdir fs (req_cwd r)
             \<and> (\<exists>abs_cwd. realpath fs (req_cwd r) = Inr abs_cwd) \<longrightarrow>
             main fs home (Inr r)
               = Exit2 (''BLOCKED: Malformed command (unclosed quotes or syntax error)''
                        @ [newline] @ ''  Command: '' @ req_command r)))
   \<and> (\<not> has_dangerous (req_command r) \<and> req_cwd r \<noteq> [] \<and> isdir fs (req_cwd r)
        \<and> (\<exists>abs_cwd. realpath fs (req_cwd r) = Inr abs_cwd) \<longrightarrow>
        main fs home (Inr r) = Exit0)
   \<and> (req_cwd r = [] \<or> \<not> isdir fs (req_cwd r) \<longrightarrow>
        main fs home (Inr r)
          = Exit2 (''ERROR: Invalid or missing working directory: '' @ req_cwd r))
   \<and> (\<forall>e. req_cwd r \<noteq> [] \<and> isdir fs (req_cwd r) \<and> realpath fs (req_cwd r) = Inl e \<longrightarrow>
        main fs home (Inr r) = Exit2 (''ERROR: Cannot resolve working directory: '' @ e))"
proof -
  assume tool: "req_tool_name r = ''Bash''"
    and quoting: "unterminated_quoting (req_command r)"
  let ?malformed = "''BLOCKED: Malformed command (unclosed quotes or syntax error)''
      @ [newline] @ ''  Command: '' @ req_command r"
  from quoting have nonempty: "req_command r \<noteq> []"
    by (rule unterminated_nonempty)
  have fails: "\<not> unquoted_hash Outside (req_command r) \<longrightarrow>
      (\<exists>e. shlex_tokens (req_command r) = Inl e)
      \<and> parse_command_tokens (req_command r) = None"
  proof
    assume "\<not> unquoted_hash Outside (req_command r)"
    with quoting have "lexer_open_at_end Outside (req_command r)"
      by (simp add: lexer_open_at_end_plain unterminated_quoting_def)
    then have "\<exists>e. shlex_tokens (req_command r) = Inl e"
      by (simp add: shlex_tokens_fails_iff)
    then show "(\<exists>e. shlex_tokens (req_command r) = Inl e)
        \<and> parse_command_tokens (req_command r) = None"
      by (auto simp: parse_command_tokens_def)
  qed
  have blocked: "\<not> unquoted_hash Outside (req_command r) \<and> has_dangerous (req_command r) \<longrightarrow>
      (\<exists>message. message \<noteq> [] \<and> main fs home (Inr r) = Exit2 message)
      \<and> (req_cwd r \<noteq> [] \<and> isdir fs (req_cwd r)
           \<and> (\<exists>abs_cwd. realpath fs (req_cwd r) = Inr abs_cwd) \<longrightarrow>
           main fs home (Inr r) = Exit2 ?malformed)"
  proof
    assume both: "\<not> unquoted_hash Outside (req_command r) \<and> has_dangerous (req_command r)"
    with fails have parsed: "parse_command_tokens (req_command r) = None"
      by simp
    then have checked: "\<And>abs_cwd. check_command fs (req_command r) (req_cwd r) home abs_cwd
        = Some ?malformed"
      by (simp add: check_command_def malformed_message_def)
    have exits: "\<exists>message. message \<noteq> [] \<and> main fs home (Inr r) = Exit2 message"
      using tool both nonempty checked
      by (cases "realpath fs (req_cwd r)") (simp_all add: main_def)
    have valid: "req_cwd r \<noteq> [] \<and> isdir fs (req_cwd r)
          \<and> (\<exists>abs_cwd. realpath fs (req_cwd r) = Inr abs_cwd) \<longrightarrow>
        main fs home (Inr r) = Exit2 ?malformed"
      using tool both nonempty checked
      by (auto simp: main_def)
    from exits valid show "(\<exists>message. message \<noteq> [] \<and> main fs home (Inr r) = Exit2 message)
      \<and> (req_cwd r \<noteq> [] \<and> isdir fs (req_cwd r)
           \<and> (\<exists>abs_cwd. realpath fs (req_cwd r) = Inr abs_cwd) \<longrightarrow>
           main fs home (Inr r) = Exit2 ?malformed)"
      by (rule conjI)
  qed
  have allowed: "\<not> has_dangerous (req_command r) \<and> req_cwd r \<noteq> [] \<and> isdir fs (req_cwd r)
        \<and> (\<exists>abs_cwd. realpath fs (req_cwd r) = Inr abs_cwd) \<longrightarrow>
      main fs home (Inr r) = Exit0"
    using tool nonempty by (auto simp: main_def)
  have invalid: "req_cwd r = [] \<or> \<not> isdir fs (req_cwd r) \<longrightarrow>
      main fs home (Inr r)
        = Exit2 (''ERROR: Invalid or missing working directory: '' @ req_cwd r)"
    using tool nonempty by (auto simp: main_def)
  have unresolved: "\<forall>e. req_cwd r \<noteq> [] \<and> isdir fs (req_cwd r)
        \<and> realpath fs (req_cwd r) = Inl e \<longrightarrow>
      main fs home (Inr r) = Exit2 (''ERROR: Cannot resolve working directory: '' @ e)"
    using tool nonempty by (auto simp: main_def)
  from nonempty fails blocked allowed invalid unresolved show ?thesis
    by (intro conjI)
qed


text \<open>The commands \<^verbatim>\<open>rm "abc\<close> and \<^verbatim>\<open>echo "hi\<close> in the working directory
  \<^verbatim>\<open>/home/u/project\<close>; the command \<^verbatim>\<open>rm "abc\<close> without a working directory, and in a
  working directory whose real path is not found.\<close>

theorem malformed_command_blocks_witness:
  "unterminated_quoting (''rm '' @ [dquote] @ ''abc'')
   \<and> \<not> unquoted_hash Outside (''rm '' @ [dquote] @ ''abc'')
   \<and> has_dangerous (''rm '' @ [dquote] @ ''abc'')
   \<and> shlex_tokens (''rm '' @ [dquote] @ ''abc'') = Inl No_closing_quotation
   \<and> parse_command_tokens (''rm '' @ [dquote] @ ''abc'') = None
   \<and> main bare_fs ''/home/u'' (bash_request (''rm '' @ [dquote] @ ''abc''))
       = Exit2 (''BLOCKED: Malformed command (unclosed quotes or syntax error)''
                @ [newline] @ ''  Command: rm '' @ [dquote] @ ''abc'')
   \<and> unterminated_quoting (''echo '' @ [dquote] @ ''hi'')
   \<and> \<not> has_dangerous (''echo '' @ [dquote] @ ''hi'')
   \<and> main bare_fs ''/home/u'' (bash_request (''echo '' @ [dquote] @ ''hi'')) = Exit0
   \<and> main bare_fs ''/home/u''
        (Inr \<lparr>req_tool_name = ''Bash'', req_command = ''rm '' @ [dquote] @ ''abc'',
              req_cwd = []\<rparr>)
       = Exit2 ''ERROR: Invalid or missing working directory: ''
   \<and> main \<lparr>isdir = (\<lambda>p. True), path_exists = (\<lambda>p. False), realpath = (\<lambda>p. Inl ''loop'')\<rparr>
        ''/home/u'' (bash_request (''rm '' @ [dquote] @ ''abc''))
       = Exit2 ''ERROR: Cannot resolve working directory: loop''"
proof -
  let ?rm = "''rm '' @ [dquote] @ ''abc''"
  let ?echo = "''echo '' @ [dquote] @ ''hi''"
  let ?r = "\<lambda>command cwd. \<lparr>req_tool_name = ''Bash'', req_command = command, req_cwd = cwd\<rparr>"
  let ?wd = "''/home/u/project''"
  let ?fs = "\<lparr>isdir = (\<lambda>p. True), path_exists = (\<lambda>p. False), realpath = (\<lambda>p. Inl ''loop'')\<rparr>"
  have q1: "unterminated_quoting ?rm" and h1: "\<not> unquoted_hash Outside ?rm"
    and d1: "has_dangerous ?rm" and q2: "unterminated_quoting ?echo"
    and d2: "\<not> has_dangerous ?echo"
    by code_simp+
  have fails: "shlex_tokens ?rm = Inl No_closing_quotation"
    by code_simp
  have valid: "?wd \<noteq> [] \<and> isdir bare_fs ?wd \<and> (\<exists>abs_cwd. realpath bare_fs ?wd = Inr abs_cwd)"
    by (simp add: bare_fs_def)
  have tool: "\<And>command cwd. req_tool_name (?r command cwd) = ''Bash''"
    by simp
  have u1: "unterminated_quoting (req_command (?r ?rm ?wd))"
    and u2: "unterminated_quoting (req_command (?r ?echo ?wd))"
    and u3: "unterminated_quoting (req_command (?r ?rm []))"
    using q1 q2 by simp_all
  note rm = malformed_command_blocks [OF tool u1, of bare_fs "''/home/u''"]
  have parsed: "parse_command_tokens ?rm = None"
    using rm [THEN conjunct2, THEN conjunct1] h1 by simp
  have blocked: "main bare_fs ''/home/u'' (bash_request ?rm)
      = Exit2 (''BLOCKED: Malformed command (unclosed quotes or syntax error)''
                @ [newline] @ ''  Command: rm '' @ [dquote] @ ''abc'')"
    using rm [THEN conjunct2, THEN conjunct2, THEN conjunct1] h1 d1 valid
    by (simp add: bash_request_def)
  have allowed: "main bare_fs ''/home/u'' (bash_request ?echo) = Exit0"
    using malformed_command_blocks [OF tool u2, of bare_fs "''/home/u''",
        THEN conjunct2, THEN conjunct2, THEN conjunct2, THEN conjunct1] d2 valid
    by (simp add: bash_request_def)
  have invalid: "main bare_fs ''/home/u'' (Inr (?r ?rm []))
      = Exit2 ''ERROR: Invalid or missing working directory: ''"
    using malformed_command_blocks [OF tool u3, of bare_fs "''/home/u''",
        THEN conjunct2, THEN conjunct2, THEN conjunct2, THEN conjunct2, THEN conjunct1]
    by simp
  have unresolved: "main ?fs ''/home/u'' (bash_request ?rm)
      = Exit2 ''ERROR: Cannot resolve working directory: loop''"
    using malformed_command_blocks [OF tool u1, of ?fs "''/home/u''",
        THEN conjunct2, THEN conjunct2, THEN conjunct2, THEN conjunct2, THEN conjunct2,
        THEN spec, of "''loop''"]
    by (simp add: bash_request_def)
  from q1 h1 d1 fails parsed blocked q2 d2 allowed invalid unresolved show ?thesis
    by (intro conjI)
qed

text \<open>What holds of C5: when the first token after \<^verbatim>\<open>xargs\<close> that does not start with a
  dash names a deletion command, the reason is emitted.\<close>

lemma xargs_first_other_token:
  assumes "basename t = ''xargs''"
    and "\<forall>f \<in> set flags. startswith f ''-''"
    and "\<not> startswith sub ''-''"
    and "is_rm_like (basename sub)"
  shows "extract_rm_targets fs (t # flags @ sub # rest) cwd home
    = ([], [''xargs with rm - paths come from stdin''])"
proof -
  have "dropWhile (\<lambda>token. startswith token ''-'') (flags @ sub # rest) = sub # rest"
    using assms(2,3) by (simp add: dropWhile_append2)
  moreover have "''xargs'' \<notin> set wrappers" and "''xargs'' \<notin> set shells"
    by (simp_all add: wrappers_def shells_def)
  ultimately show ?thesis
    using assms(1,4) by (simp add: extract_rm_targets.simps Let_def)
qed

text \<open>
  C5. \<^verbatim>\<open>xargs\<close> is never to run a deletion command, whatever flags precede it. The code
  takes the first token that does not start with a dash for the command that
  \<^verbatim>\<open>xargs\<close> runs; in \<^verbatim>\<open>xargs -n 1 rm -rf\<close> that token is the argument \<^verbatim>\<open>1\<close> of the flag
  \<^verbatim>\<open>-n\<close>, no reason is emitted, and the line is allowed.
\<close>

theorem xargs_flag_argument_is_allowed:
  "extract_rm_targets bare_fs [''xargs'', ''-n'', ''1'', ''rm'', ''-rf''] ''/home/u/project'' ''/home/u''
     = ([], [])
   \<and> check_command bare_fs ''echo /etc | xargs -n 1 rm -rf'' ''/home/u/project'' ''/home/u''
         ''/home/u/project'' = None
   \<and> main bare_fs ''/home/u'' (bash_request ''echo /etc | xargs -n 1 rm -rf'') = Exit0"
  by code_simp

text \<open>What holds of C6: a wrapper is followed by tokens that start with a dash (for
  \<^verbatim>\<open>sudo\<close>, none of \<^verbatim>\<open>-u\<close>, \<^verbatim>\<open>-g\<close> and \<^verbatim>\<open>-C\<close>, which take the next token with them)
  and then by a token that does not (for \<^verbatim>\<open>env\<close>, one without an equals sign): the
  analysis is that of the command from this token on.\<close>

lemma wrapper_sub_start_flags:
  assumes "\<forall>f \<in> set flags. startswith f ''-'' \<and> (cmd = ''sudo'' \<longrightarrow> f \<notin> set [''-u'', ''-g'', ''-C''])"
    and "\<not> startswith c ''-''"
    and "cmd = ''env'' \<longrightarrow> CHR ''='' \<notin> set c"
  shows "wrapper_sub_start cmd n (flags @ c # rest) = n + length flags"
  using assms
proof (induction flags arbitrary: n)
  case Nil
  then show ?case by auto
next
  case (Cons f flags)
  from Cons.prems(1) have f: "startswith f ''-''"
    and not_arg: "\<not> (cmd = ''sudo'' \<and> f \<in> set [''-u'', ''-g'', ''-C''])"
    and others: "\<forall>f \<in> set flags. startswith f ''-''
        \<and> (cmd = ''sudo'' \<longrightarrow> f \<notin> set [''-u'', ''-g'', ''-C''])"
    by simp_all
  have "wrapper_sub_start cmd n ((f # flags) @ c # rest)
      = wrapper_sub_start cmd (n + 1) (flags @ c # rest)"
    using f not_arg by auto
  also have "\<dots> = (n + 1) + length flags"
    using others Cons.prems(2,3) by (rule Cons.IH)
  finally show ?case by simp
qed

lemma wrapper_recursion:
  assumes "basename t \<in> set wrappers"
    and "\<forall>f \<in> set flags. startswith f ''-''
          \<and> (basename t = ''sudo'' \<longrightarrow> f \<notin> set [''-u'', ''-g'', ''-C''])"
    and "\<not> startswith c ''-''"
    and "basename t = ''env'' \<longrightarrow> CHR ''='' \<notin> set c"
  shows "extract_rm_targets fs (t # flags @ c # rest) cwd home
    = extract_rm_targets fs (c # rest) cwd home"
proof -
  have "wrapper_sub_start (basename t) 1 (flags @ c # rest) = 1 + length flags"
    using assms(2,3,4) by (rule wrapper_sub_start_flags)
  with assms(1) show ?thesis
    by (simp add: extract_rm_targets.simps [of fs t] Let_def)
qed

text \<open>An option of \<^verbatim>\<open>sudo\<close> that takes an argument is skipped with its argument.\<close>

lemma sudo_option_argument:
  assumes "basename t = ''sudo''"
    and "f \<in> set [''-u'', ''-g'', ''-C'']"
    and "\<not> startswith c ''-''"
  shows "extract_rm_targets fs (t # f # arg # c # rest) cwd home
    = extract_rm_targets fs (c # rest) cwd home"
proof -
  from assms(2) have dash: "startswith f ''-''"
    by auto
  have "wrapper_sub_start ''sudo'' 1 (f # arg # c # rest) = 3"
    using assms(2,3) dash by auto
  moreover have "''sudo'' \<in> set wrappers"
    by (simp add: wrappers_def)
  ultimately show ?thesis
    using assms(1) by (simp add: extract_rm_targets.simps [of fs t] Let_def)
qed

text \<open>The example of the specification.\<close>

lemma sudo_rm_is_blocked:
  "check_command bare_fs ''sudo rm -rf /tmp/x'' ''/home/u/project'' ''/home/u'' ''/home/u/project''
     = Some (outside_message ''/tmp/x'' ''/home/u/project'' ''sudo rm -rf /tmp/x'')"
  by code_simp

text \<open>
  C6. After a wrapper the analysis is to skip the flags, the duration of \<^verbatim>\<open>timeout\<close>
  among them, and to recurse on the wrapped command. The wrapper loop stops at the first
  token that does not start with a dash, and the duration is such a token: for
  \<^verbatim>\<open>timeout 10 rm -rf /tmp/x\<close> the recursion is on a command headed by \<^verbatim>\<open>10\<close>, which
  yields nothing, and the line is allowed.
\<close>

theorem timeout_duration_is_not_skipped:
  "wrapper_sub_start ''timeout'' 1 [''10'', ''rm'', ''-rf'', ''/tmp/x''] = 1
   \<and> extract_rm_targets bare_fs [''timeout'', ''10'', ''rm'', ''-rf'', ''/tmp/x'']
         ''/home/u/project'' ''/home/u'' = ([], [])
   \<and> check_command bare_fs ''timeout 10 rm -rf /tmp/x'' ''/home/u/project'' ''/home/u''
         ''/home/u/project'' = None
   \<and> main bare_fs ''/home/u'' (bash_request ''timeout 10 rm -rf /tmp/x'') = Exit0"
  by code_simp




text \<open>
  C8, as stated: every path token free of the unresolvable patterns resolves to a path.
  The token \<^verbatim>\<open>~bob/x\<close> matches none of the patterns, and the resolver returns no path
  for it.
\<close>

theorem tilde_user_counterexample:
  "\<not> list_ex (\<lambda>pattern. re_search pattern ''~bob/x'') UNRESOLVABLE_PATTERNS
   \<and> resolve_path bare_fs ''~bob/x'' ''/home/u/project'' ''/home/u'' = None"
  by code_simp

text \<open>
  C8, amended. Take a path token that matches none of the unresolvable patterns. If it
  starts with \<^verbatim>\<open>~\<close> and is neither \<^verbatim>\<open>~\<close> nor starts with \<^verbatim>\<open>~/\<close>, the resolver returns no
  path. Every other token resolves, to the path computed in four steps: a leading \<^verbatim>\<open>~\<close>
  or \<^verbatim>\<open>~/\<close> becomes the home directory, a path that is not absolute is joined onto the
  working directory, the result is normalized, and only a normalized path that exists on
  disk is replaced by its real path (it is kept when the probe fails). A path that does
  not exist resolves to its normalized form.
\<close>

theorem resolve_path_steps:
  "\<not> list_ex (\<lambda>pattern. re_search pattern path) UNRESOLVABLE_PATTERNS \<Longrightarrow>
   (startswith path ''~'' \<and> path \<noteq> ''~'' \<and> \<not> startswith path ''~/'' \<longrightarrow>
      resolve_path fs path cwd home = None)
   \<and> (path = ''~'' \<or> startswith path ''~/'' \<or> \<not> startswith path ''~'' \<longrightarrow>
      resolve_path fs path cwd home =
        Some (let expanded = (if path = ''~'' \<or> startswith path ''~/''
                              then home @ drop 1 path else path);
                  absolute = (if isabs expanded then expanded else path_join cwd expanded);
                  normalized = normpath absolute
              in if path_exists fs normalized then
                   (case realpath fs normalized of Inr real \<Rightarrow> real | Inl err \<Rightarrow> normalized)
                 else normalized)
      \<and> (\<forall>expanded absolute.
            expanded = (if path = ''~'' \<or> startswith path ''~/'' then home @ drop 1 path else path)
            \<and> absolute = (if isabs expanded then expanded else path_join cwd expanded)
            \<and> \<not> path_exists fs (normpath absolute)
            \<longrightarrow> resolve_path fs path cwd home = Some (normpath absolute)))"
proof -
  assume free: "\<not> list_ex (\<lambda>pattern. re_search pattern path) UNRESOLVABLE_PATTERNS"
  have home_forms: "path = ''~'' \<or> startswith path ''~/'' \<Longrightarrow> startswith path ''~''"
    by (cases path) auto
  have rejected: "startswith path ''~'' \<and> path \<noteq> ''~'' \<and> \<not> startswith path ''~/'' \<longrightarrow>
      resolve_path fs path cwd home = None"
    by (simp add: resolve_path_def)
  have resolved: "path = ''~'' \<or> startswith path ''~/'' \<or> \<not> startswith path ''~'' \<longrightarrow>
      resolve_path fs path cwd home =
        Some (let expanded = (if path = ''~'' \<or> startswith path ''~/''
                              then home @ drop 1 path else path);
                  absolute = (if isabs expanded then expanded else path_join cwd expanded);
                  normalized = normpath absolute
              in if path_exists fs normalized then
                   (case realpath fs normalized of Inr real \<Rightarrow> real | Inl err \<Rightarrow> normalized)
                 else normalized)
      \<and> (\<forall>expanded absolute.
            expanded = (if path = ''~'' \<or> startswith path ''~/'' then home @ drop 1 path else path)
            \<and> absolute = (if isabs expanded then expanded else path_join cwd expanded)
            \<and> \<not> path_exists fs (normpath absolute)
            \<longrightarrow> resolve_path fs path cwd home = Some (normpath absolute))"
  proof
    assume tilde: "path = ''~'' \<or> startswith path ''~/'' \<or> \<not> startswith path ''~''"
    have steps: "resolve_path fs path cwd home =
       Some (let expanded = (if path = ''~'' \<or> startswith path ''~/''
                             then home @ drop 1 path else path);
                 absolute = (if isabs expanded then expanded else path_join cwd expanded);
                 normalized = normpath absolute
             in if path_exists fs normalized then
                  (case realpath fs normalized of Inr real \<Rightarrow> real | Inl err \<Rightarrow> normalized)
                else normalized)"
    proof (cases "path = ''~'' \<or> startswith path ''~/''")
      case True
      with home_forms have "startswith path ''~''"
        by blast
      with True show ?thesis
        using free by (simp add: resolve_path_def Let_def split: sum.split)
    next
      case False
      with tilde have "\<not> startswith path ''~''"
        by blast
      with False show ?thesis
        using free by (simp add: resolve_path_def Let_def split: sum.split)
    qed
    then show "resolve_path fs path cwd home =
        Some (let expanded = (if path = ''~'' \<or> startswith path ''~/''
                              then home @ drop 1 path else path);
                  absolute = (if isabs expanded then expanded else path_join cwd expanded);
                  normalized = normpath absolute
              in if path_exists fs normalized then
                   (case realpath fs normalized of Inr real \<Rightarrow> real | Inl err \<Rightarrow> normalized)
                 else normalized)
      \<and> (\<forall>expanded absolute.
            expanded = (if path = ''~'' \<or> startswith path ''~/'' then home @ drop 1 path else path)
            \<and> absolute = (if isabs expanded then expanded else path_join cwd expanded)
            \<and> \<not> path_exists fs (normpath absolute)
            \<longrightarrow> resolve_path fs path cwd home = Some (normpath absolute))"
      by (simp add: Let_def)
  qed
  from rejected resolved show ?thesis
    by (rule conjI)
qed

text \<open>The tokens \<^verbatim>\<open>~/a/../b\<close> and \<^verbatim>\<open>./notes.txt\<close>, where no path exists, the token
  \<^verbatim>\<open>link\<close> where \<^verbatim>\<open>/home/u/project/link\<close> is a link to \<^verbatim>\<open>/etc\<close>, and the token
  \<^verbatim>\<open>~root/.ssh\<close>, which names the home directory of another user.\<close>

theorem resolve_path_steps_witness:
  "\<not> list_ex (\<lambda>pattern. re_search pattern ''~/a/../b'') UNRESOLVABLE_PATTERNS
   \<and> (''~/a/../b'' = ''~'' \<or> startswith ''~/a/../b'' ''~/'' \<or> \<not> startswith ''~/a/../b'' ''~'')
   \<and> resolve_path bare_fs ''~/a/../b'' ''/home/u/project'' ''/home/u'' = Some ''/home/u/b''
   \<and> \<not> list_ex (\<lambda>pattern. re_search pattern ''./notes.txt'') UNRESOLVABLE_PATTERNS
   \<and> resolve_path bare_fs ''./notes.txt'' ''/home/u/project'' ''/home/u''
       = Some ''/home/u/project/notes.txt''
   \<and> \<not> list_ex (\<lambda>pattern. re_search pattern ''link'') UNRESOLVABLE_PATTERNS
   \<and> resolve_path link_fs ''link'' ''/home/u/project'' ''/home/u'' = Some ''/etc''
   \<and> \<not> list_ex (\<lambda>pattern. re_search pattern ''~root/.ssh'') UNRESOLVABLE_PATTERNS
   \<and> (startswith ''~root/.ssh'' ''~'' \<and> ''~root/.ssh'' \<noteq> ''~'' \<and> \<not> startswith ''~root/.ssh'' ''~/'')
   \<and> resolve_path bare_fs ''~root/.ssh'' ''/home/u/project'' ''/home/u'' = None"
proof -
  have f1: "\<not> list_ex (\<lambda>pattern. re_search pattern ''~/a/../b'') UNRESOLVABLE_PATTERNS"
    and f2: "\<not> list_ex (\<lambda>pattern. re_search pattern ''./notes.txt'') UNRESOLVABLE_PATTERNS"
    and f3: "\<not> list_ex (\<lambda>pattern. re_search pattern ''link'') UNRESOLVABLE_PATTERNS"
    and f4: "\<not> list_ex (\<lambda>pattern. re_search pattern ''~root/.ssh'') UNRESOLVABLE_PATTERNS"
    by code_simp+
  have t1: "''~/a/../b'' = ''~'' \<or> startswith ''~/a/../b'' ''~/'' \<or> \<not> startswith ''~/a/../b'' ''~''"
    and t2: "''./notes.txt'' = ''~'' \<or> startswith ''./notes.txt'' ''~/''
        \<or> \<not> startswith ''./notes.txt'' ''~''"
    and t3: "''link'' = ''~'' \<or> startswith ''link'' ''~/'' \<or> \<not> startswith ''link'' ''~''"
    and t4: "startswith ''~root/.ssh'' ''~'' \<and> ''~root/.ssh'' \<noteq> ''~''
        \<and> \<not> startswith ''~root/.ssh'' ''~/''"
    by simp_all
  have n1: "normpath (''/home/u'' @ drop 1 ''~/a/../b'') = ''/home/u/b''"
    and n2: "normpath (path_join ''/home/u/project'' ''./notes.txt'') = ''/home/u/project/notes.txt''"
    and n3: "normpath (path_join ''/home/u/project'' ''link'') = ''/home/u/project/link''"
    by code_simp+
  have r1: "resolve_path bare_fs ''~/a/../b'' ''/home/u/project'' ''/home/u'' = Some ''/home/u/b''"
    using resolve_path_steps [OF f1, of bare_fs "''/home/u/project''" "''/home/u''",
        THEN conjunct2, THEN mp, OF t1, THEN conjunct1] n1
    by (simp add: Let_def isabs_def bare_fs_def)
  have r2: "resolve_path bare_fs ''./notes.txt'' ''/home/u/project'' ''/home/u''
      = Some ''/home/u/project/notes.txt''"
    using resolve_path_steps [OF f2, of bare_fs "''/home/u/project''" "''/home/u''",
        THEN conjunct2, THEN mp, OF t2, THEN conjunct1] n2
    by (simp add: Let_def isabs_def bare_fs_def)
  have r3: "resolve_path link_fs ''link'' ''/home/u/project'' ''/home/u'' = Some ''/etc''"
    using resolve_path_steps [OF f3, of link_fs "''/home/u/project''" "''/home/u''",
        THEN conjunct2, THEN mp, OF t3, THEN conjunct1] n3
    by (simp add: Let_def isabs_def link_fs_def)
  have r4: "resolve_path bare_fs ''~root/.ssh'' ''/home/u/project'' ''/home/u'' = None"
    using resolve_path_steps [OF f4, of bare_fs "''/home/u/project''" "''/home/u''",
        THEN conjunct1, THEN mp, OF t4] .
  note u4 = t4 [THEN conjunct1] t4 [THEN conjunct2, THEN conjunct1]
    t4 [THEN conjunct2, THEN conjunct2]
  from f1 t1 r1 f2 r2 f3 r3 f4 u4 r4 show ?thesis
    by (intro conjI)
qed

text \<open>
  C9, as stated: every Bash request whose command contains no tracked name as a word exits
  0. The working directory is checked before the quick check, so such a request with a
  missing working directory exits 2.
\<close>

theorem quick_check_counterexample:
  "\<not> has_dangerous ''ls''
   \<and> main bare_fs ''/home/u''
        (Inr \<lparr>req_tool_name = ''Bash'', req_command = ''ls'', req_cwd = ''''\<rparr>)
       = Exit2 ''ERROR: Invalid or missing working directory: ''"
  by code_simp

text \<open>
  C9, amended. Take a Bash request whose command contains no tracked name as a word. With
  a valid working directory (a directory whose real path is found) it exits 0, also when
  the analysis of the command would block it. With an empty command it exits 0, whatever
  the working directory. With a command that is not empty it exits 2 with the diagnostic for
  the working directory when the working directory is missing or no directory, or when its
  real path is not found.
\<close>

theorem quick_check_allows:
  "req_tool_name r = ''Bash'' \<Longrightarrow>
   \<not> has_dangerous (req_command r) \<Longrightarrow>
   (req_cwd r \<noteq> [] \<and> isdir fs (req_cwd r) \<and> (\<exists>abs_cwd. realpath fs (req_cwd r) = Inr abs_cwd) \<longrightarrow>
      main fs home (Inr r) = Exit0)
   \<and> (\<forall>abs_cwd error.
         req_cwd r \<noteq> [] \<and> isdir fs (req_cwd r) \<and> realpath fs (req_cwd r) = Inr abs_cwd
         \<and> check_command fs (req_command r) (req_cwd r) home abs_cwd = Some error
         \<and> error \<noteq> [] \<longrightarrow>
         main fs home (Inr r) = Exit0)
   \<and> (req_command r = [] \<longrightarrow> main fs home (Inr r) = Exit0)
   \<and> (req_command r \<noteq> [] \<and> (req_cwd r = [] \<or> \<not> isdir fs (req_cwd r)) \<longrightarrow>
        main fs home (Inr r)
          = Exit2 (''ERROR: Invalid or missing working directory: '' @ req_cwd r))
   \<and> (\<forall>e. req_command r \<noteq> [] \<and> req_cwd r \<noteq> [] \<and> isdir fs (req_cwd r)
          \<and> realpath fs (req_cwd r) = Inl e \<longrightarrow>
        main fs home (Inr r) = Exit2 (''ERROR: Cannot resolve working directory: '' @ e))"
proof -
  assume tool: "req_tool_name r = ''Bash''"
    and quick: "\<not> has_dangerous (req_command r)"
  have valid: "req_cwd r \<noteq> [] \<and> isdir fs (req_cwd r)
        \<and> (\<exists>abs_cwd. realpath fs (req_cwd r) = Inr abs_cwd) \<longrightarrow>
      main fs home (Inr r) = Exit0"
    using tool quick by (auto simp: main_def)
  have bypass: "\<forall>abs_cwd error.
      req_cwd r \<noteq> [] \<and> isdir fs (req_cwd r) \<and> realpath fs (req_cwd r) = Inr abs_cwd
      \<and> check_command fs (req_command r) (req_cwd r) home abs_cwd = Some error
      \<and> error \<noteq> [] \<longrightarrow>
      main fs home (Inr r) = Exit0"
    using tool quick by (auto simp: main_def)
  have empty: "req_command r = [] \<longrightarrow> main fs home (Inr r) = Exit0"
    using tool by (simp add: main_def)
  have invalid: "req_command r \<noteq> [] \<and> (req_cwd r = [] \<or> \<not> isdir fs (req_cwd r)) \<longrightarrow>
      main fs home (Inr r)
        = Exit2 (''ERROR: Invalid or missing working directory: '' @ req_cwd r)"
    using tool by (auto simp: main_def)
  have unresolved: "\<forall>e. req_command r \<noteq> [] \<and> req_cwd r \<noteq> [] \<and> isdir fs (req_cwd r)
        \<and> realpath fs (req_cwd r) = Inl e \<longrightarrow>
      main fs home (Inr r) = Exit2 (''ERROR: Cannot resolve working directory: '' @ e)"
    using tool by (auto simp: main_def)
  from valid bypass empty invalid unresolved show ?thesis
    by (intro conjI)
qed

text \<open>The command \<^verbatim>\<open>r\m -rf /etc\<close>: its text contains no tracked name, its tokens are
  those of \<^verbatim>\<open>rm -rf /etc\<close>, which the analysis would block, and the request exits 0 in
  the working directory \<^verbatim>\<open>/home/u/project\<close>, as does \<^verbatim>\<open>ls\<close>. The empty command and
  the command \<^verbatim>\<open>ls\<close> without a working directory, and \<^verbatim>\<open>ls\<close> in a working directory
  whose real path is not found.\<close>

theorem quick_check_allows_witness:
  "\<not> has_dangerous (''r'' @ [backslash] @ ''m -rf /etc'')
   \<and> isdir bare_fs ''/home/u/project''
   \<and> realpath bare_fs ''/home/u/project'' = Inr ''/home/u/project''
   \<and> main bare_fs ''/home/u'' (bash_request (''r'' @ [backslash] @ ''m -rf /etc'')) = Exit0
   \<and> parse_command_tokens (''r'' @ [backslash] @ ''m -rf /etc'') = Some [[''rm'', ''-rf'', ''/etc'']]
   \<and> check_command bare_fs (''r'' @ [backslash] @ ''m -rf /etc'') ''/home/u/project'' ''/home/u''
         ''/home/u/project''
       = Some (''BLOCKED: rm targets path outside working directory'' @ [newline]
               @ ''  Target: /etc'' @ [newline]
               @ ''  Working directory: /home/u/project'' @ [newline]
               @ ''  Command: r'' @ [backslash] @ ''m -rf /etc'')
   \<and> \<not> has_dangerous []
   \<and> main bare_fs ''/home/u'' (Inr \<lparr>req_tool_name = ''Bash'', req_command = [], req_cwd = []\<rparr>)
       = Exit0
   \<and> \<not> has_dangerous ''ls''
   \<and> main bare_fs ''/home/u'' (bash_request ''ls'') = Exit0
   \<and> main bare_fs ''/home/u'' (Inr \<lparr>req_tool_name = ''Bash'', req_command = ''ls'', req_cwd = []\<rparr>)
       = Exit2 ''ERROR: Invalid or missing working directory: ''
   \<and> main \<lparr>isdir = (\<lambda>p. True), path_exists = (\<lambda>p. False), realpath = (\<lambda>p. Inl ''loop'')\<rparr>
        ''/home/u'' (bash_request ''ls'')
       = Exit2 ''ERROR: Cannot resolve working directory: loop''"
proof -
  let ?command = "''r'' @ [backslash] @ ''m -rf /etc''"
  let ?r = "\<lambda>command cwd. \<lparr>req_tool_name = ''Bash'', req_command = command, req_cwd = cwd\<rparr>"
  let ?wd = "''/home/u/project''"
  let ?fs = "\<lparr>isdir = (\<lambda>p. True), path_exists = (\<lambda>p. False), realpath = (\<lambda>p. Inl ''loop'')\<rparr>"
  have tool: "\<And>command cwd. req_tool_name (?r command cwd) = ''Bash''"
    by simp
  have q1: "\<not> has_dangerous ?command" and q2: "\<not> has_dangerous []"
    and q3: "\<not> has_dangerous ''ls''"
    by code_simp+
  have quick1: "\<not> has_dangerous (req_command (?r ?command ?wd))"
    and quick2: "\<not> has_dangerous (req_command (?r [] []))"
    and quick3: "\<not> has_dangerous (req_command (?r ''ls'' []))"
    and quick4: "\<not> has_dangerous (req_command (?r ''ls'' ?wd))"
    using q1 q2 q3 by simp_all
  have dir: "isdir bare_fs ?wd" and real: "realpath bare_fs ?wd = Inr ?wd"
    by (simp_all add: bare_fs_def)
  have parsed: "parse_command_tokens ?command = Some [[''rm'', ''-rf'', ''/etc'']]"
    by code_simp
  have blocked: "check_command bare_fs ?command ?wd ''/home/u'' ?wd
      = Some (''BLOCKED: rm targets path outside working directory'' @ [newline]
               @ ''  Target: /etc'' @ [newline]
               @ ''  Working directory: /home/u/project'' @ [newline]
               @ ''  Command: r'' @ [backslash] @ ''m -rf /etc'')"
    by code_simp
  let ?message = "''BLOCKED: rm targets path outside working directory'' @ [newline]
               @ ''  Target: /etc'' @ [newline]
               @ ''  Working directory: /home/u/project'' @ [newline]
               @ ''  Command: r'' @ [backslash] @ ''m -rf /etc''"
  note bypass = quick_check_allows [OF tool quick1, of bare_fs "''/home/u''",
      THEN conjunct2, THEN conjunct1, THEN spec, THEN spec, THEN mp]
  have "main bare_fs ''/home/u'' (Inr (?r ?command ?wd)) = Exit0"
  proof (rule bypass)
    show "req_cwd (?r ?command ?wd) \<noteq> [] \<and> isdir bare_fs (req_cwd (?r ?command ?wd))
        \<and> realpath bare_fs (req_cwd (?r ?command ?wd)) = Inr ?wd
        \<and> check_command bare_fs (req_command (?r ?command ?wd)) (req_cwd (?r ?command ?wd))
              ''/home/u'' ?wd = Some ?message
        \<and> ?message \<noteq> []"
      using dir real blocked by simp
  qed
  then have allowed: "main bare_fs ''/home/u'' (bash_request ?command) = Exit0"
    by (simp add: bash_request_def)
  have listed: "main bare_fs ''/home/u'' (bash_request ''ls'') = Exit0"
    using quick_check_allows [OF tool quick4, of bare_fs "''/home/u''", THEN conjunct1] dir real
    by (simp add: bash_request_def)
  have empty: "main bare_fs ''/home/u'' (Inr (?r [] [])) = Exit0"
    using quick_check_allows [OF tool quick2, of bare_fs "''/home/u''",
        THEN conjunct2, THEN conjunct2, THEN conjunct1]
    by simp
  have invalid: "main bare_fs ''/home/u'' (Inr (?r ''ls'' []))
      = Exit2 ''ERROR: Invalid or missing working directory: ''"
    using quick_check_allows [OF tool quick3, of bare_fs "''/home/u''",
        THEN conjunct2, THEN conjunct2, THEN conjunct2, THEN conjunct1]
    by simp
  have unresolved: "main ?fs ''/home/u'' (bash_request ''ls'')
      = Exit2 ''ERROR: Cannot resolve working directory: loop''"
    using quick_check_allows [OF tool quick4, of ?fs "''/home/u''",
        THEN conjunct2, THEN conjunct2, THEN conjunct2, THEN conjunct2, THEN spec, of "''loop''"]
    by (simp add: bash_request_def)
  from q1 dir real allowed parsed blocked q2 empty q3 listed invalid unresolved show ?thesis
    by (intro conjI)
qed

text \<open>
  C10. A simple command headed by \<^verbatim>\<open>parallel\<close> or \<^verbatim>\<open>watch\<close> yields no resolved path
  and no unresolvable reason, and a line that consists of such a command alone is allowed.
\<close>

theorem parallel_watch_yield_nothing:
  "basename t = ''parallel'' \<or> basename t = ''watch'' \<Longrightarrow>
   extract_rm_targets fs (t # ts) cwd home = ([], [])
   \<and> (parse_command_tokens command = Some [t # ts] \<longrightarrow>
        check_command fs command cwd home abs_cwd = None)"
proof -
  assume head: "basename t = ''parallel'' \<or> basename t = ''watch''"
  then have empty: "extract_rm_targets fs (t # ts) cwd home = ([], [])"
    by (auto simp: extract_rm_targets.simps wrappers_def shells_def is_rm_like_def
          DANGEROUS_COMMANDS_def)
  then have "analyze_commands fs [t # ts] cwd home = ([], [])"
    by simp
  then have "parse_command_tokens command = Some [t # ts] \<longrightarrow>
      check_command fs command cwd home abs_cwd = None"
    by (simp add: check_command_def)
  with empty show ?thesis by blast
qed

text \<open>The line \<^verbatim>\<open>watch rm -rf /etc\<close>, whose arguments name a deletion of a path outside
  the working directory.\<close>

theorem parallel_watch_yield_nothing_witness:
  "(basename ''watch'' = ''parallel'' \<or> basename ''watch'' = ''watch'')
   \<and> parse_command_tokens ''watch rm -rf /etc'' = Some [[''watch'', ''rm'', ''-rf'', ''/etc'']]
   \<and> extract_rm_targets bare_fs [''watch'', ''rm'', ''-rf'', ''/etc''] ''/home/u/project'' ''/home/u''
       = ([], [])
   \<and> check_command bare_fs ''watch rm -rf /etc'' ''/home/u/project'' ''/home/u''
         ''/home/u/project'' = None"
proof -
  have head: "basename ''watch'' = ''parallel'' \<or> basename ''watch'' = ''watch''"
    by code_simp
  have parsed: "parse_command_tokens ''watch rm -rf /etc''
      = Some [[''watch'', ''rm'', ''-rf'', ''/etc'']]"
    by code_simp
  from parallel_watch_yield_nothing [OF head, of bare_fs "[''rm'', ''-rf'', ''/etc'']"
      "''/home/u/project''" "''/home/u''" "''watch rm -rf /etc''" "''/home/u/project''"]
    head parsed
  show ?thesis by blast
qed

end
